theory Spec2Isabelle
  imports Main "HOL-Library.AList" "HOL-Library.Multiset"
begin

section \<open>Shared data model\<close>

text \<open>
  Strings of the program are \<^typ>\<open>string\<close>; the strict equality \<open>===\<close> of two strings is
  HOL equality. \<open>quote\<close> is the apostrophe used inside the template literals.
\<close>

definition quote :: string where
  "quote = [CHR 0x27]"

text \<open>\<open>Array.prototype.join\<close> on an array of strings.\<close>

fun join :: "string \<Rightarrow> string list \<Rightarrow> string" where
  "join sep [] = []"
| "join sep [x] = x"
| "join sep (x # y # ys) = x @ sep @ join sep (y # ys)"

text \<open>
  \<open>EdgeData\<close> (entities/Edge): \<open>id\<close>, \<open>source\<close>, \<open>target\<close>, \<open>interaction\<close> and
  \<open>properties.weight\<close>. An \<open>Edge\<close> is \<open>{ data: EdgeData }\<close>; the wrapper carries nothing else,
  so an edge is identified with its data.
\<close>

record EdgeData =
  id_edge :: string
  source :: string
  target :: string
  interaction :: string
  weight :: int

text \<open>
  Modelled from the spec: \<open>MapSet\<close> (entities/MapSet) is not part of the sources at hand. It is
  a collection keyed by the element id ("union nodes and edges by id"), kept here as an
  association list in insertion order: \<open>keys\<close> lists the ids, \<open>values_of\<close> the elements that
  \<open>map\<close> and \<open>filter\<close> run over, \<open>has\<close> and \<open>get\<close> look an id up, and inserting an element
  under an id that is present replaces the element in place.
\<close>

type_synonym 'a MapSet = "(string \<times> 'a) list"

definition keys :: "'a MapSet \<Rightarrow> string list" where
  "keys m = map fst m"

definition values_of :: "'a MapSet \<Rightarrow> 'a list" where
  "values_of m = map snd m"

definition has :: "'a MapSet \<Rightarrow> string \<Rightarrow> bool" where
  "has m k = (k \<in> set (keys m))"

definition get :: "'a MapSet \<Rightarrow> string \<Rightarrow> 'a option" where
  "get m k = map_of m k"

definition MapSet_of :: "('a \<Rightarrow> string) \<Rightarrow> 'a list \<Rightarrow> 'a MapSet" where
  "MapSet_of key xs = fold (\<lambda>x m. AList.update (key x) x m) xs []"

section \<open>Merger and validator (PostProcessingService)\<close>

text \<open>
  \<open>IntermediateGraph\<close>: a name, the nodes and the edges, both as \<open>MapSet\<close>s. The validator
  reads the node ids only, so the node type is left open.
\<close>

record 'n IntermediateGraph =
  name :: string
  nodes :: "'n MapSet"
  edges :: "EdgeData MapSet"

text \<open>
  \<open>validateGraph\<close>: every edge is copied with an endpoint blanked to the empty string when the
  endpoint is a known node id; the copies with a non-blank endpoint are the invalid edges. With
  none, the function returns; otherwise it throws one \<open>Error\<close> whose message lists them. The
  thrown error is \<open>Inl\<close> of its message.
\<close>

definition blankKnown :: "string list \<Rightarrow> EdgeData \<Rightarrow> EdgeData" where
  "blankKnown nodeIds e =
     e\<lparr>source := (if source e \<in> set nodeIds then [] else source e),
       target := (if target e \<in> set nodeIds then [] else target e)\<rparr>"

definition edgeMessage :: "EdgeData \<Rightarrow> string" where
  "edgeMessage e =
     (if source e = [] then
        ''Edge '' @ quote @ id_edge e @ quote @ '': unknown target '' @ quote @ target e @ quote
      else if target e = [] then
        ''Edge '' @ quote @ id_edge e @ quote @ '': unknown source '' @ quote @ source e @ quote
      else
        ''Edge '' @ quote @ id_edge e @ quote @ '': unknown source '' @ quote @ source e @ quote
          @ '' and target '' @ quote @ target e @ quote)"

definition validateGraph :: "'n IntermediateGraph \<Rightarrow> string + unit" where
  "validateGraph graph =
     (let nodeIds = keys (nodes graph);
          invalidEdges = filter (\<lambda>e. source e \<noteq> [] \<or> target e \<noteq> [])
                           (map (blankKnown nodeIds) (values_of (edges graph)))
      in if length invalidEdges = 0 then Inr ()
         else Inl (''Graph '' @ quote @ name graph @ quote
                   @ '' is invalid due to the following edges: ''
                   @ join ''; '' (map edgeMessage invalidEdges)))"

text \<open>
  \<open>mergeGraphs\<close> concatenates the nodes and the edges of the graphs and builds one \<open>MapSet\<close>
  of each. The graph's node key is a parameter, since the node type is open.
\<close>

definition mergeGraphs :: "('n \<Rightarrow> string) \<Rightarrow> 'n IntermediateGraph list \<Rightarrow> 'n IntermediateGraph" where
  "mergeGraphs nodeKey graphs =
     \<lparr>name = ''Merged graph of '' @ quote @ join '', '' (map name graphs) @ quote,
      nodes = MapSet_of nodeKey (concat (map (\<lambda>g. values_of (nodes g)) graphs)),
      edges = MapSet_of id_edge (concat (map (\<lambda>g. values_of (edges g)) graphs))\<rparr>"

text \<open>
  The constructor followed by the \<open>graph\<close> getter: one graph is taken as it is, any other
  number of graphs is merged; the result is validated, and a throw of the validator leaves no
  object behind.
\<close>

definition constructedGraph :: "('n \<Rightarrow> string) \<Rightarrow> 'n IntermediateGraph list \<Rightarrow> 'n IntermediateGraph" where
  "constructedGraph nodeKey graphs =
     (case graphs of [g] \<Rightarrow> g | _ \<Rightarrow> mergeGraphs nodeKey graphs)"

definition PostProcessingService :: "('n \<Rightarrow> string) \<Rightarrow> 'n IntermediateGraph list \<Rightarrow> string + 'n IntermediateGraph" where
  "PostProcessingService nodeKey graphs =
     (let graph = constructedGraph nodeKey graphs
      in case validateGraph graph of Inl err \<Rightarrow> Inl err | Inr _ \<Rightarrow> Inr graph)"

text \<open>
  What the error is to say, in the words of the specification: the offending edges are those
  with an endpoint outside the node set, and each is named with the endpoints that are missing.
\<close>

definition offending :: "string set \<Rightarrow> EdgeData \<Rightarrow> bool" where
  "offending ids e = (source e \<notin> ids \<or> target e \<notin> ids)"

definition describeMissing :: "string set \<Rightarrow> EdgeData \<Rightarrow> string" where
  "describeMissing ids e =
     ''Edge '' @ quote @ id_edge e @ quote @ '': unknown ''
       @ (if source e \<notin> ids \<and> target e \<notin> ids then
            ''source '' @ quote @ source e @ quote @ '' and target '' @ quote @ target e @ quote
          else if source e \<notin> ids then ''source '' @ quote @ source e @ quote
          else ''target '' @ quote @ target e @ quote)"

definition invalidMessage :: "'n IntermediateGraph \<Rightarrow> string" where
  "invalidMessage graph =
     ''Graph '' @ quote @ name graph @ quote @ '' is invalid due to the following edges: ''
       @ join ''; '' (map (describeMissing (set (keys (nodes graph))))
                        (filter (offending (set (keys (nodes graph)))) (values_of (edges graph))))"

definition nonEmptyEndpoints :: "'n IntermediateGraph \<Rightarrow> bool" where
  "nonEmptyEndpoints graph =
     list_all (\<lambda>e. source e \<noteq> [] \<and> target e \<noteq> []) (values_of (edges graph))"

section \<open>Abstraction engine (GraphProcessingService)\<close>

subsection \<open>Records and arrays\<close>

text \<open>
  A relationship as the database returns it (\<open>INeo4jComponentRelationship\<close>): its element id,
  the element ids of its start and end node, and its type.
\<close>

record Neo4jComponentRelationship =
  elementId :: string
  startNodeElementId :: string
  endNodeElementId :: string
  type :: string

text \<open>
  Modelled from the spec: the class \<open>Neo4jComponentPathWithChunks\<close> is not part of the sources
  at hand. A path record "decomposes into exactly three contiguous chunks: leading containment,
  a dependency chunk, trailing containment", and carries the "containment chunk lengths":
  \<open>sourceDepth\<close> and \<open>targetDepth\<close> are the lengths of the two containment chunks, and
  \<open>allEdges\<close> is the three chunks in order.
\<close>

record Neo4jComponentPath =
  containSourceEdges :: "Neo4jComponentRelationship list"
  dependencyEdges :: "Neo4jComponentRelationship list"
  containTargetEdges :: "Neo4jComponentRelationship list"

definition sourceDepth :: "Neo4jComponentPath \<Rightarrow> int" where
  "sourceDepth record = int (length (containSourceEdges record))"

definition targetDepth :: "Neo4jComponentPath \<Rightarrow> int" where
  "targetDepth record = int (length (containTargetEdges record))"

definition allEdges :: "Neo4jComponentPath \<Rightarrow> Neo4jComponentRelationship list" where
  "allEdges record = containSourceEdges record @ dependencyEdges record @ containTargetEdges record"

text \<open>
  \<open>Array.prototype.splice(start, deleteCount)\<close>: a negative start counts from the end, a start
  beyond the end is the end, and the count is cut to what is there. The result is the deleted
  elements and the array that is left.
\<close>

definition splice :: "'a list \<Rightarrow> int \<Rightarrow> int \<Rightarrow> 'a list \<times> 'a list" where
  "splice xs start deleteCount =
     (let len = int (length xs);
          actualStart = (if start < 0 then max (len + start) 0 else min start len);
          actualDeleteCount = min (max deleteCount 0) (len - actualStart)
      in (take (nat actualDeleteCount) (drop (nat actualStart) xs),
          take (nat actualStart) xs @ drop (nat (actualStart + actualDeleteCount)) xs))"

text \<open>\<open>Array.prototype.findIndex\<close>, with \<open>None\<close> for \<open>-1\<close>.\<close>

fun findIndex :: "('a \<Rightarrow> bool) \<Rightarrow> 'a list \<Rightarrow> nat option" where
  "findIndex P [] = None"
| "findIndex P (x # xs) = (if P x then Some 0 else map_option Suc (findIndex P xs))"

subsection \<open>The abstraction map\<close>

text \<open>
  The replace map is a JavaScript \<open>Map\<close>: an association list in insertion order, where
  \<open>set\<close> overwrites the value of a key that is present and appends a new key.
\<close>

type_synonym ReplaceMap = "(string \<times> string) list"

definition addToReplaceMap :: "Neo4jComponentRelationship list \<Rightarrow> ReplaceMap \<Rightarrow> ReplaceMap" where
  "addToReplaceMap deletedEdges replaceMap =
     (case deletedEdges of
        [] \<Rightarrow> replaceMap
      | first # _ \<Rightarrow>
          fold (\<lambda>edge m. AList.update (endNodeElementId edge) (startNodeElementId first) m)
            deletedEdges replaceMap)"

text \<open>
  The body of the \<open>forEach\<close> of \<open>getAbstractionMap\<close> (the version without a direction flag):
  both splices cut the record's own arrays, so the record is returned with what is left.
\<close>

definition abstractRecord :: "int \<Rightarrow> Neo4jComponentPath \<Rightarrow> ReplaceMap \<Rightarrow> ReplaceMap \<times> Neo4jComponentPath" where
  "abstractRecord maxDepth record replaceMap =
     (let containsSourceDepth = sourceDepth record;
          containsTargetDepth = targetDepth record;
          containsTooDeep = max 0 (containsSourceDepth - maxDepth);
          (deletedSource, restSource) = splice (containSourceEdges record) maxDepth containsTooDeep;
          replaceMap1 = addToReplaceMap deletedSource replaceMap;
          (deletedTarget, restTarget) =
             splice (containTargetEdges record) (containsTargetDepth - containsTooDeep) containsTooDeep;
          replaceMap2 = addToReplaceMap deletedTarget replaceMap1
      in (replaceMap2,
          record\<lparr>containSourceEdges := restSource, containTargetEdges := restTarget\<rparr>))"

fun abstractRecords :: "int \<Rightarrow> Neo4jComponentPath list \<Rightarrow> ReplaceMap \<Rightarrow> ReplaceMap \<times> Neo4jComponentPath list" where
  "abstractRecords maxDepth [] replaceMap = (replaceMap, [])"
| "abstractRecords maxDepth (record # records) replaceMap =
     (let (replaceMap1, record1) = abstractRecord maxDepth record replaceMap;
          (replaceMap2, records1) = abstractRecords maxDepth records replaceMap1
      in (replaceMap2, record1 # records1))"

text \<open>
  \<open>getAbstractionMap\<close> over the records of the pre-processor: the map it returns, and the
  records as the splices leave them.
\<close>

definition getAbstractionMap :: "Neo4jComponentPath list \<Rightarrow> int \<Rightarrow> ReplaceMap \<times> Neo4jComponentPath list" where
  "getAbstractionMap records maxDepth = abstractRecords maxDepth records []"

text \<open>Looking an id up in the map, the id itself when it is no key.\<close>

definition applyMap :: "ReplaceMap \<Rightarrow> string \<Rightarrow> string" where
  "applyMap m x = (case map_of m x of Some y \<Rightarrow> y | None \<Rightarrow> x)"

subsection \<open>The version with a direction flag\<close>

text \<open>
  The older \<open>getAbstractionMap(records, maxDepth, reverseDirection)\<close> works on the chunk list
  of a record: \<open>chunks[0]\<close> and \<open>chunks[chunks.length - 1]\<close>. With one chunk the two are the same
  array, so the second splice sees what the first left; with no chunk \<open>chunks[0][0]\<close> throws.
\<close>

type_synonym Chunks = "Neo4jComponentRelationship list list"

definition lowerChar :: "char \<Rightarrow> char" where
  "lowerChar c =
     (case map_of (zip ''ABCDEFGHIJKLMNOPQRSTUVWXYZ'' ''abcdefghijklmnopqrstuvwxyz'') c of
        Some d \<Rightarrow> d
      | None \<Rightarrow> c)"

definition toLowerCase :: "string \<Rightarrow> string" where
  "toLowerCase s = map lowerChar s"

definition containsDepth :: "Neo4jComponentRelationship list \<Rightarrow> int" where
  "containsDepth chunk =
     (case chunk of
        [] \<Rightarrow> 0
      | e # _ \<Rightarrow> if toLowerCase (type e) = ''contains'' then int (length chunk) else 0)"

datatype error = TypeError

definition abstractChunks :: "int \<Rightarrow> bool \<Rightarrow> Chunks \<Rightarrow> ReplaceMap \<Rightarrow> error + ReplaceMap \<times> Chunks" where
  "abstractChunks maxDepth reverseDirection chunks replaceMap =
     (if chunks = [] then Inl TypeError
      else
        let lastIndex = length chunks - 1;
            containsSourceDepth = containsDepth (chunks ! 0);
            containsTargetDepth = containsDepth (chunks ! lastIndex)
        in if \<not> reverseDirection then
             let containsTooDeep = max 0 (containsSourceDepth - maxDepth);
                 (deletedSource, restSource) = splice (chunks ! 0) maxDepth containsTooDeep;
                 chunks1 = chunks[0 := restSource];
                 replaceMap1 = addToReplaceMap deletedSource replaceMap;
                 (deletedTarget, restTarget) =
                    splice (chunks1 ! lastIndex) (containsTargetDepth - containsTooDeep) containsTooDeep;
                 chunks2 = chunks1[lastIndex := restTarget]
             in Inr (addToReplaceMap deletedTarget replaceMap1, chunks2)
           else
             let containsTooDeep = max 0 (containsTargetDepth - maxDepth);
                 (deletedSource, restSource) =
                    splice (chunks ! 0) (containsSourceDepth - containsTooDeep) containsTooDeep;
                 chunks1 = chunks[0 := restSource];
                 replaceMap1 = addToReplaceMap deletedSource replaceMap;
                 (deletedTarget, restTarget) = splice (chunks1 ! lastIndex) maxDepth containsTooDeep;
                 chunks2 = chunks1[lastIndex := restTarget]
             in Inr (addToReplaceMap deletedTarget replaceMap1, chunks2))"

fun abstractAllChunks :: "int \<Rightarrow> bool \<Rightarrow> Chunks list \<Rightarrow> ReplaceMap \<Rightarrow> error + ReplaceMap \<times> Chunks list" where
  "abstractAllChunks maxDepth reverseDirection [] replaceMap = Inr (replaceMap, [])"
| "abstractAllChunks maxDepth reverseDirection (chunks # rest) replaceMap =
     (case abstractChunks maxDepth reverseDirection chunks replaceMap of
        Inl err \<Rightarrow> Inl err
      | Inr (replaceMap1, chunks1) \<Rightarrow>
          (case abstractAllChunks maxDepth reverseDirection rest replaceMap1 of
             Inl err \<Rightarrow> Inl err
           | Inr (replaceMap2, rest1) \<Rightarrow> Inr (replaceMap2, chunks1 # rest1)))"

definition getAbstractionMapDirected :: "Chunks list \<Rightarrow> int \<Rightarrow> bool \<Rightarrow> error + ReplaceMap \<times> Chunks list" where
  "getAbstractionMapDirected records maxDepth reverseDirection =
     abstractAllChunks maxDepth reverseDirection records []"

subsection \<open>Edges\<close>

text \<open>
  \<open>GraphElementParserService.toEdgeData\<close> is not part of the sources at hand; its predecessor
  \<open>formatNeo4jRelationshipToEdgeData\<close> is, and \<open>getAllEdges\<close> documents the same result ("all
  having weight 1"): the ids are copied, the interaction is the type in lower case, the weight
  is 1.
\<close>

definition toEdgeData :: "Neo4jComponentRelationship \<Rightarrow> EdgeData" where
  "toEdgeData edge =
     \<lparr>id_edge = elementId edge,
      source = startNodeElementId edge,
      target = endNodeElementId edge,
      interaction = toLowerCase (type edge),
      weight = 1\<rparr>"

text \<open>
  \<open>getAllEdges\<close>: the relationships of all records in order, each turned into an edge unless
  its element id was seen before; \<open>seenEdges\<close> is shared by all records.
\<close>

fun collectEdges :: "string list \<Rightarrow> Neo4jComponentRelationship list \<Rightarrow> EdgeData list" where
  "collectEdges seenEdges [] = []"
| "collectEdges seenEdges (r # rs) =
     (if elementId r \<in> set seenEdges then collectEdges seenEdges rs
      else toEdgeData r # collectEdges (seenEdges @ [elementId r]) rs)"

definition getAllEdges :: "Neo4jComponentPath list \<Rightarrow> EdgeData list" where
  "getAllEdges records = collectEdges [] (concat (map allEdges records))"

text \<open>
  \<open>mergeDuplicateEdges\<close>: the \<open>reduce\<close> appends an edge whose (source, target) pair is new and
  otherwise adds its weight to the edge found. The edges are objects made by \<open>getAllEdges\<close>,
  one per element, so the update in place touches no other element of the list.
\<close>

definition mergeEdge :: "EdgeData list \<Rightarrow> EdgeData \<Rightarrow> EdgeData list" where
  "mergeEdge newEdges edge =
     (case findIndex (\<lambda>e. source e = source edge \<and> target e = target edge) newEdges of
        None \<Rightarrow> newEdges @ [edge]
      | Some index \<Rightarrow>
          newEdges[index := (newEdges ! index)\<lparr>weight := weight (newEdges ! index) + weight edge\<rparr>])"

definition mergeDuplicateEdges :: "EdgeData list \<Rightarrow> EdgeData list" where
  "mergeDuplicateEdges edgeList = foldl mergeEdge [] edgeList"

text \<open>
  \<open>applyAbstraction\<close> rewrites the endpoints of the dependency edges of every record through
  the map; \<open>setNodeReferences\<close> touches no id.
\<close>

definition abstractEdge :: "ReplaceMap \<Rightarrow> Neo4jComponentRelationship \<Rightarrow> Neo4jComponentRelationship" where
  "abstractEdge abstractionMap e =
     e\<lparr>startNodeElementId := applyMap abstractionMap (startNodeElementId e),
       endNodeElementId := applyMap abstractionMap (endNodeElementId e)\<rparr>"

definition applyAbstraction :: "Neo4jComponentPath list \<Rightarrow> ReplaceMap \<Rightarrow> Neo4jComponentPath list" where
  "applyAbstraction records abstractionMap =
     map (\<lambda>record. record\<lparr>dependencyEdges := map (abstractEdge abstractionMap) (dependencyEdges record)\<rparr>)
       records"

subsection \<open>Nodes and the graph\<close>

text \<open>\<open>NodeData\<close> with its properties, and the optional \<open>parent\<close>; a \<open>Node\<close> is its data.\<close>

record NodeData =
  id_node :: string
  label :: string
  kind :: string
  layer :: string
  color :: string
  depth :: int
  selected :: string
  parent :: "string option"

text \<open>The filter \<open>i === all.findIndex((n2) => n1 === n2)\<close>: first occurrences only.\<close>

definition firstOccurrences :: "'a list \<Rightarrow> 'a list" where
  "firstOccurrences all =
     map fst (filter (\<lambda>(n1, i). findIndex (\<lambda>n2. n1 = n2) all = Some i) (zip all [0 ..< length all]))"

definition filterNodesByEdges :: "NodeData list \<Rightarrow> EdgeData list \<Rightarrow> NodeData list" where
  "filterNodesByEdges nodeList edgeList =
     (let nodesOnPaths = firstOccurrences (concat (map (\<lambda>e. [source e, target e]) edgeList))
      in filter (\<lambda>n. id_node n \<in> set nodesOnPaths) nodeList)"

definition filterSelfEdges :: "EdgeData list \<Rightarrow> EdgeData list" where
  "filterSelfEdges edgeList = filter (\<lambda>e. source e \<noteq> target e) edgeList"

definition setParent :: "EdgeData \<Rightarrow> NodeData list \<Rightarrow> NodeData list" where
  "setParent e nodesCopy =
     (case findIndex (\<lambda>n. id_node n = target e) nodesCopy of
        None \<Rightarrow> nodesCopy
      | Some i \<Rightarrow> nodesCopy[i := (nodesCopy ! i)\<lparr>parent := Some (source e)\<rparr>])"

definition addParentRelationship :: "NodeData list \<Rightarrow> EdgeData list \<Rightarrow> NodeData list" where
  "addParentRelationship nodeList parentEdges = fold setParent parentEdges nodeList"

definition replaceEdgeWithParentRelationship ::
  "NodeData list \<Rightarrow> EdgeData list \<Rightarrow> string \<Rightarrow> NodeData list \<times> EdgeData list" where
  "replaceEdgeWithParentRelationship nodeList edgeList relationship =
     (let containEdges = filter (\<lambda>e. interaction e = relationship) edgeList;
          dependencyEdges = filter (\<lambda>e. interaction e \<noteq> relationship) edgeList;
          newNodes = addParentRelationship nodeList containEdges
      in (newNodes, dependencyEdges))"

text \<open>
  The pre-processor hands over its node list and its records; the options are \<open>maxDepth\<close> and
  \<open>selfEdges\<close>, each possibly undefined.
\<close>

record GraphPreProcessingService =
  nodes_of :: "NodeData list"
  records_of :: "Neo4jComponentPath list"

record BasicGraphFilterOptions =
  maxDepth :: "int option"
  selfEdges :: "bool option"

record Graph =
  graph_name :: string
  graph_nodes :: "NodeData list"
  graph_edges :: "EdgeData list"

text \<open>The edges of \<open>formatToLPG\<close> after abstraction and deduplication.\<close>

definition mergedEdges :: "GraphPreProcessingService \<Rightarrow> BasicGraphFilterOptions \<Rightarrow> EdgeData list" where
  "mergedEdges original options =
     (let filteredRecords =
            (case maxDepth options of
               None \<Rightarrow> records_of original
             | Some d \<Rightarrow>
                 (let (replaceMap, records1) = getAbstractionMap (records_of original) d
                  in applyAbstraction records1 replaceMap))
      in mergeDuplicateEdges (getAllEdges filteredRecords))"

definition formatToLPG :: "GraphPreProcessingService \<Rightarrow> string \<Rightarrow> BasicGraphFilterOptions \<Rightarrow> Graph" where
  "formatToLPG original graphName options =
     (let edgeList = mergedEdges original options;
          nodeList = filterNodesByEdges (nodes_of original) edgeList;
          (newNodes, dependencyEdges) = replaceEdgeWithParentRelationship nodeList edgeList ''contains'';
          dependencyEdges1 =
            (if selfEdges options = Some False then filterSelfEdges dependencyEdges
             else dependencyEdges)
      in \<lparr>graph_name = graphName, graph_nodes = newNodes, graph_edges = dependencyEdges1\<rparr>)"

subsection \<open>Measuring the deduplicated edges\<close>

text \<open>
  The (source, target) pair of an edge, and the total weight that the edges of a list carry on
  one pair.
\<close>

definition endpoints :: "EdgeData \<Rightarrow> string \<times> string" where
  "endpoints e = (source e, target e)"

definition pairWeight :: "string \<times> string \<Rightarrow> EdgeData list \<Rightarrow> int" where
  "pairWeight p es = sum_list (map (\<lambda>e. if endpoints e = p then weight e else 0) es)"

subsection \<open>The rule of the abstraction map\<close>

text \<open>
  The rule as the code applies it, on one record and a cutoff \<open>d\<close>: the excess of a chunk is
  what it has beyond \<open>d\<close> edges; the leading run is the leading chunk from position \<open>d\<close> on;
  the trailing run is as many edges as the leading chunk has in excess, taken from the end of
  the trailing chunk. Every edge of a run gives one entry, from its end node to the start node
  of the first edge of the run. \<open>cutRecord\<close> is the record without its two runs.
\<close>

definition excess :: "int \<Rightarrow> 'a list \<Rightarrow> nat" where
  "excess d chunk = length chunk - nat d"

definition leadingRun :: "int \<Rightarrow> Neo4jComponentPath \<Rightarrow> Neo4jComponentRelationship list" where
  "leadingRun d record = drop (nat d) (containSourceEdges record)"

definition trailingRun :: "int \<Rightarrow> Neo4jComponentPath \<Rightarrow> Neo4jComponentRelationship list" where
  "trailingRun d record =
     drop (length (containTargetEdges record) - excess d (containSourceEdges record))
       (containTargetEdges record)"

definition runEntries :: "Neo4jComponentRelationship list \<Rightarrow> (string \<times> string) list" where
  "runEntries run = map (\<lambda>e. (endNodeElementId e, startNodeElementId (hd run))) run"

definition ruleEntries :: "int \<Rightarrow> Neo4jComponentPath \<Rightarrow> (string \<times> string) list" where
  "ruleEntries d record = runEntries (leadingRun d record) @ runEntries (trailingRun d record)"

definition cutRecord :: "int \<Rightarrow> Neo4jComponentPath \<Rightarrow> Neo4jComponentPath" where
  "cutRecord d record =
     record\<lparr>containSourceEdges := take (nat d) (containSourceEdges record),
            containTargetEdges :=
              take (length (containTargetEdges record) - excess d (containSourceEdges record))
                (containTargetEdges record)\<rparr>"

text \<open>
  The rule in the words of the specification, for comparison: the leading chunk beyond the
  cutoff, and symmetrically the trailing chunk's own excess beyond the cutoff.
\<close>

definition statedEntries :: "int \<Rightarrow> Neo4jComponentPath \<Rightarrow> (string \<times> string) list" where
  "statedEntries d record =
     runEntries (drop (nat d) (containSourceEdges record))
       @ runEntries (drop (nat d) (containTargetEdges record))"

text \<open>The two arrays that the splices of one \<open>forEach\<close> step return.\<close>

definition deletedRuns :: "int \<Rightarrow> Neo4jComponentPath \<Rightarrow> Neo4jComponentRelationship list list" where
  "deletedRuns d record =
     (let containsTooDeep = max 0 (sourceDepth record - d)
      in [fst (splice (containSourceEdges record) d containsTooDeep),
          fst (splice (containTargetEdges record) (targetDepth record - containsTooDeep)
                 containsTooDeep)])"

text \<open>
  A chunk whose length \<open>containsDepth\<close> counts: empty, or starting with a containment edge.
  \<open>fitsTrailing\<close>: the trailing chunk has at least as many edges as the leading chunk has in
  excess. \<open>replacementsApart\<close>: the replacement node of a run (the start node of its first edge)
  is the end node of a deleted edge only in runs with that same replacement node.
\<close>

definition containmentChunk :: "Neo4jComponentRelationship list \<Rightarrow> bool" where
  "containmentChunk chunk = (chunk = [] \<or> toLowerCase (type (hd chunk)) = ''contains'')"

definition fitsTrailing :: "int \<Rightarrow> Neo4jComponentPath \<Rightarrow> bool" where
  "fitsTrailing d record =
     (excess d (containSourceEdges record) \<le> length (containTargetEdges record))"

definition replacementsApart :: "Neo4jComponentRelationship list list \<Rightarrow> bool" where
  "replacementsApart runs =
     (\<forall>run \<in> set runs. \<forall>run' \<in> set runs.
        run \<noteq> [] \<and> startNodeElementId (hd run) \<in> endNodeElementId ` set run'
        \<longrightarrow> startNodeElementId (hd run') = startNodeElementId (hd run))"

section \<open>Violation projector (ViolationCyclicalDependenciesService)\<close>

text \<open>
  A node of the rendered graph (\<open>Neo4jComponentNode\<close>): its element id, labels and properties,
  and \<open>originalNodeBeforeLifting\<close>, the back-reference that a node made by lifting carries.
\<close>

datatype Neo4jComponentNode =
  Neo4jComponentNode
    (nodeElementId: string)
    (labels: "string list")
    (simpleName: string)
    (nodeKind: string)
    (nodeColor: string)
    (nodeDepth: int)
    (originalNodeBeforeLifting: "Neo4jComponentNode option")

text \<open>
  \<open>ElementParserService.toNodeData\<close> is not part of the sources at hand; its predecessor
  \<open>formatNeo4jNodeToNodeData\<close> is, and is followed here with no selected id: the layer is the
  first label, or the empty string.
\<close>

definition toNodeData :: "Neo4jComponentNode \<Rightarrow> NodeData" where
  "toNodeData n =
     \<lparr>id_node = nodeElementId n,
      label = simpleName n,
      kind = nodeKind n,
      layer = (case labels n of [] \<Rightarrow> [] | l # _ \<Rightarrow> l),
      color = nodeColor n,
      depth = nodeDepth n,
      selected = ''false'',
      parent = None\<rparr>"

text \<open>
  A rendered dependency (\<open>Neo4jDependencyRelationship\<close>) with its two nodes and the flag
  \<open>violations.dependencyCycle\<close>; an edge of a cycle (\<open>ExtendedEdgeData\<close>) with the data of its
  two nodes; a cycle, and a cycle as it is rendered.
\<close>

record Neo4jDependencyRelationship =
  elementId_dep :: string
  startNode :: Neo4jComponentNode
  endNode :: Neo4jComponentNode
  dependencyCycle :: bool

record ExtendedEdgeData = EdgeData +
  sourceNode :: NodeData
  targetNode :: NodeData

record DependencyCycle =
  node :: NodeData
  path :: "ExtendedEdgeData list"
  length_cycle :: int

record DependencyCycleRender = DependencyCycle +
  actualCycles :: "DependencyCycle list"
  id_cycle :: string

text \<open>
  Modelled from the spec: \<open>MapSet.getOriginal\<close> is not part of the sources at hand. The
  projector is to "look up an edge with the same id in the final rendered graph": the lookup by
  key.
\<close>

definition getOriginal :: "Neo4jDependencyRelationship MapSet \<Rightarrow> string \<Rightarrow> Neo4jDependencyRelationship option" where
  "getOriginal dependencies k = map_of dependencies k"

definition cycleIndex :: "'a DependencyCycle_scheme \<Rightarrow> string" where
  "cycleIndex d1 = id_node (node d1) @ ''--'' @ join ''-'' (map id_edge (path d1))"

text \<open>\<open>original?.originalNodeBeforeLifting ?? original\<close>.\<close>

definition liftedOrSelf :: "Neo4jComponentNode option \<Rightarrow> Neo4jComponentNode option" where
  "liftedOrSelf original =
     (case original of
        None \<Rightarrow> None
      | Some n \<Rightarrow> (case originalNodeBeforeLifting n of Some l \<Rightarrow> Some l | None \<Rightarrow> Some n))"

text \<open>
  The callback of \<open>dep.path.map\<close>. An edge found in the rendered dependencies is flagged there
  (the object in the set is updated) and lends its id and its nodes; both \<open>sourceNode\<close> and
  \<open>targetNode\<close> are made from \<open>existingEdge.startNode\<close>, as in the source. Otherwise each
  endpoint is looked up in the node set.
\<close>

definition abstractCycleEdge ::
  "Neo4jComponentNode MapSet \<Rightarrow> Neo4jDependencyRelationship MapSet \<Rightarrow> ExtendedEdgeData
     \<Rightarrow> ExtendedEdgeData \<times> Neo4jDependencyRelationship MapSet" where
  "abstractCycleEdge nodeSet dependencies d =
     (case getOriginal dependencies (id_edge d) of
        Some existingEdge \<Rightarrow>
          (let sourceNode1 = toNodeData (startNode existingEdge);
               targetNode1 = toNodeData (startNode existingEdge)
           in (d\<lparr>id_edge := elementId_dep existingEdge,
                 source := nodeElementId (startNode existingEdge),
                 sourceNode := sourceNode1,
                 target := nodeElementId (endNode existingEdge),
                 targetNode := targetNode1\<rparr>,
               AList.update (id_edge d) (existingEdge\<lparr>dependencyCycle := True\<rparr>) dependencies))
      | None \<Rightarrow>
          (let newD = d;
               originalSourceNode = get nodeSet (source d);
               newD1 = (case liftedOrSelf originalSourceNode of
                          Some n \<Rightarrow> newD\<lparr>source := nodeElementId n, sourceNode := toNodeData n\<rparr>
                        | None \<Rightarrow> newD);
               originalTargetNode = get nodeSet (target d);
               newD2 = (case liftedOrSelf originalTargetNode of
                          Some n \<Rightarrow> newD1\<lparr>target := nodeElementId n, targetNode := toNodeData n\<rparr>
                        | None \<Rightarrow> newD1)
           in (newD2, dependencies)))"

fun abstractPath ::
  "Neo4jComponentNode MapSet \<Rightarrow> Neo4jDependencyRelationship MapSet \<Rightarrow> ExtendedEdgeData list
     \<Rightarrow> ExtendedEdgeData list \<times> Neo4jDependencyRelationship MapSet" where
  "abstractPath nodeSet dependencies [] = ([], dependencies)"
| "abstractPath nodeSet dependencies (d # ds) =
     (let (d1, dependencies1) = abstractCycleEdge nodeSet dependencies d;
          (ds1, dependencies2) = abstractPath nodeSet dependencies1 ds
      in (d1 # ds1, dependencies2))"

text \<open>
  The filter on the rewritten path: the element at index 0 is kept when every element is a
  self-edge; any other element is kept when it is no self-edge.
\<close>

definition isSelfEdge :: "'a EdgeData_scheme \<Rightarrow> bool" where
  "isSelfEdge e = (source e = target e)"

definition collapseSelfEdges :: "ExtendedEdgeData list \<Rightarrow> ExtendedEdgeData list" where
  "collapseSelfEdges newPath =
     map fst (filter (\<lambda>(e, index).
                        if index = 0 \<and> list_all (\<lambda>e2. source e2 = target e2) newPath then True
                        else source e \<noteq> target e)
                (zip newPath [0 ..< length newPath]))"

text \<open>
  The callback of \<open>dependencyCycles.map\<close>. \<open>newPath[0].sourceNode\<close> throws a \<open>TypeError\<close> when
  the path is empty.
\<close>

definition abstractCycle ::
  "Neo4jComponentNode MapSet \<Rightarrow> Neo4jDependencyRelationship MapSet \<Rightarrow> DependencyCycle
     \<Rightarrow> error + DependencyCycleRender \<times> Neo4jDependencyRelationship MapSet" where
  "abstractCycle nodeSet dependencies dep =
     (let newDep = DependencyCycle.extend dep
                     (DependencyCycleRender.fields [dep] (cycleIndex dep));
          (newPath, dependencies1) = abstractPath nodeSet dependencies (path dep)
      in case newPath of
           [] \<Rightarrow> Inl TypeError
         | first # _ \<Rightarrow>
             Inr (newDep\<lparr>path := collapseSelfEdges newPath, node := sourceNode first\<rparr>,
                  dependencies1))"

fun abstractCycles ::
  "Neo4jComponentNode MapSet \<Rightarrow> Neo4jDependencyRelationship MapSet \<Rightarrow> DependencyCycle list
     \<Rightarrow> error + DependencyCycleRender list \<times> Neo4jDependencyRelationship MapSet" where
  "abstractCycles nodeSet dependencies [] = Inr ([], dependencies)"
| "abstractCycles nodeSet dependencies (dep # deps) =
     (case abstractCycle nodeSet dependencies dep of
        Inl err \<Rightarrow> Inl err
      | Inr (newDep, dependencies1) \<Rightarrow>
          (case abstractCycles nodeSet dependencies1 deps of
             Inl err \<Rightarrow> Inl err
           | Inr (newDeps, dependencies2) \<Rightarrow> Inr (newDep # newDeps, dependencies2)))"

text \<open>
  The rest of the chain: keep the cycles with a path edge whose id the dependencies have, give
  each its id anew, and merge the cycles with the same id, collecting their actual cycles.
\<close>

definition realized :: "Neo4jDependencyRelationship MapSet \<Rightarrow> DependencyCycleRender \<Rightarrow> bool" where
  "realized dependencies d = list_ex (\<lambda>p. has dependencies (id_edge p)) (path d)"

definition mergeCycle :: "DependencyCycleRender list \<Rightarrow> DependencyCycleRender \<Rightarrow> DependencyCycleRender list" where
  "mergeCycle violations d =
     (case findIndex (\<lambda>d1. id_cycle d1 = id_cycle d) violations of
        Some index \<Rightarrow>
          violations[index := (violations ! index)
                       \<lparr>actualCycles := actualCycles (violations ! index) @ actualCycles d\<rparr>]
      | None \<Rightarrow> violations @ [d])"

definition extractAndAbstractDependencyCycles ::
  "DependencyCycle list \<Rightarrow> Neo4jDependencyRelationship MapSet \<Rightarrow> Neo4jComponentNode MapSet
     \<Rightarrow> error + DependencyCycleRender list \<times> Neo4jDependencyRelationship MapSet" where
  "extractAndAbstractDependencyCycles dependencyCycles dependencies nodeSet =
     (case abstractCycles nodeSet dependencies dependencyCycles of
        Inl err \<Rightarrow> Inl err
      | Inr (newDeps, dependencies1) \<Rightarrow>
          Inr (foldl mergeCycle []
                 (map (\<lambda>d. d\<lparr>id_cycle := cycleIndex d\<rparr>)
                    (filter (realized dependencies1) newDeps)),
               dependencies1))"

text \<open>
  For the statements: the rewritten path of a cycle; the dependencies with all flags cleared;
  the rendered cycle that a raw cycle with a non-empty path gives; whether a raw cycle has an
  edge, after rewriting and collapse, whose id the dependencies have; and the raw cycles that
  the output shows, as the actual cycles of its entries.
\<close>

definition rewritePath ::
  "Neo4jComponentNode MapSet \<Rightarrow> Neo4jDependencyRelationship MapSet \<Rightarrow> ExtendedEdgeData list
     \<Rightarrow> ExtendedEdgeData list" where
  "rewritePath nodeSet dependencies p = fst (abstractPath nodeSet dependencies p)"

definition unmarked :: "Neo4jDependencyRelationship MapSet \<Rightarrow> Neo4jDependencyRelationship MapSet" where
  "unmarked dependencies = map (\<lambda>(k, e). (k, e\<lparr>dependencyCycle := False\<rparr>)) dependencies"

definition projectCycle ::
  "Neo4jComponentNode MapSet \<Rightarrow> Neo4jDependencyRelationship MapSet \<Rightarrow> DependencyCycle
     \<Rightarrow> DependencyCycleRender" where
  "projectCycle nodeSet dependencies dep =
     DependencyCycle.extend dep (DependencyCycleRender.fields [dep] (cycleIndex dep))
       \<lparr>path := collapseSelfEdges (rewritePath nodeSet dependencies (path dep)),
        node := sourceNode (hd (rewritePath nodeSet dependencies (path dep)))\<rparr>"

definition realizedCycle ::
  "Neo4jComponentNode MapSet \<Rightarrow> Neo4jDependencyRelationship MapSet \<Rightarrow> DependencyCycle \<Rightarrow> bool" where
  "realizedCycle nodeSet dependencies c =
     list_ex (\<lambda>p. has dependencies (id_edge p))
       (collapseSelfEdges (rewritePath nodeSet dependencies (path c)))"

definition shownCycles :: "DependencyCycleRender list \<Rightarrow> DependencyCycle set" where
  "shownCycles out = set (concat (map actualCycles out))"

subsection \<open>Comparing two orders of the records\<close>

text \<open>
  The records of \<open>formatToLPG\<close> after the abstraction, and their relationships in order.
  \<open>uniqueById\<close>: relationships with the same element id are equal. \<open>sameKind\<close>: relationships
  with the same endpoints are all containment edges or all other edges. \<open>consistentRuns\<close>: an
  end node deleted in two runs has the same replacement in both; \<open>consistentMap\<close> asks this of the
  runs of a cutoff, and nothing without a cutoff. \<open>triples\<close>: the edges as a set of source,
  target and weight. \<open>rendered\<close>: an edge that \<open>formatToLPG\<close> returns, being no containment edge
  and, with \<open>selfEdges\<close> false, no self-edge.
\<close>

definition abstractedRecords :: "BasicGraphFilterOptions \<Rightarrow> Neo4jComponentPath list \<Rightarrow> Neo4jComponentPath list" where
  "abstractedRecords options records =
     (case maxDepth options of
        None \<Rightarrow> records
      | Some d \<Rightarrow>
          (let (replaceMap, records1) = getAbstractionMap records d
           in applyAbstraction records1 replaceMap))"

definition rawRelationships :: "BasicGraphFilterOptions \<Rightarrow> Neo4jComponentPath list \<Rightarrow> Neo4jComponentRelationship list" where
  "rawRelationships options records = concat (map allEdges (abstractedRecords options records))"

definition uniqueById :: "Neo4jComponentRelationship list \<Rightarrow> bool" where
  "uniqueById rs = (\<forall>r1 \<in> set rs. \<forall>r2 \<in> set rs. elementId r1 = elementId r2 \<longrightarrow> r1 = r2)"

definition sameKind :: "Neo4jComponentRelationship list \<Rightarrow> bool" where
  "sameKind rs =
     (\<forall>r1 \<in> set rs. \<forall>r2 \<in> set rs.
        startNodeElementId r1 = startNodeElementId r2 \<and> endNodeElementId r1 = endNodeElementId r2
        \<longrightarrow> (toLowerCase (type r1) = ''contains'') = (toLowerCase (type r2) = ''contains''))"

definition consistentRuns :: "Neo4jComponentRelationship list list \<Rightarrow> bool" where
  "consistentRuns runs =
     (\<forall>run \<in> set runs. \<forall>run' \<in> set runs. \<forall>k \<in> endNodeElementId ` set run.
        k \<in> endNodeElementId ` set run'
        \<longrightarrow> startNodeElementId (hd run) = startNodeElementId (hd run'))"

definition consistentMap :: "BasicGraphFilterOptions \<Rightarrow> Neo4jComponentPath list \<Rightarrow> bool" where
  "consistentMap options records =
     (case maxDepth options of
        None \<Rightarrow> True
      | Some d \<Rightarrow> consistentRuns (concat (map (deletedRuns d) records)))"

definition triples :: "EdgeData list \<Rightarrow> (string \<times> string \<times> int) set" where
  "triples es = (\<lambda>e. (source e, target e, weight e)) ` set es"

definition rendered :: "BasicGraphFilterOptions \<Rightarrow> EdgeData \<Rightarrow> bool" where
  "rendered options e =
     (interaction e \<noteq> ''contains'' \<and> (selfEdges options = Some False \<longrightarrow> source e \<noteq> target e))"

text \<open>
  Records as the data model has them: a relationship is determined by its element id, the two
  containment chunks hold containment edges and the dependency chunk holds none.
\<close>

definition typedChunks :: "Neo4jComponentPath \<Rightarrow> bool" where
  "typedChunks record =
     (list_all (\<lambda>e. toLowerCase (type e) = ''contains'')
        (containSourceEdges record @ containTargetEdges record)
      \<and> list_all (\<lambda>e. toLowerCase (type e) \<noteq> ''contains'') (dependencyEdges record))"

definition preprocessed :: "Neo4jComponentPath list \<Rightarrow> bool" where
  "preprocessed records =
     (uniqueById (concat (map allEdges records)) \<and> list_all typedChunks records)"

section \<open>Concrete inputs\<close>

text \<open>
  A graph with the single node \<open>X\<close> and one edge whose source id is the empty string, and the
  two graphs of Scenario D where the edge of the second graph points at a node \<open>W\<close> that neither
  graph has. Nodes are their ids here.
\<close>

definition edgeEmptySource :: EdgeData where
  "edgeEmptySource =
     \<lparr>id_edge = ''e1'', source = [], target = ''X'', interaction = ''calls'', weight = 1\<rparr>"

definition graphEmptySource :: "string IntermediateGraph" where
  "graphEmptySource =
     \<lparr>name = ''G'', nodes = [(''X'', ''X'')], edges = [(''e1'', edgeEmptySource)]\<rparr>"

definition graphD1 :: "string IntermediateGraph" where
  "graphD1 =
     \<lparr>name = ''G1'', nodes = [(''X'', ''X''), (''Y'', ''Y'')],
      edges = [(''xy'', \<lparr>id_edge = ''xy'', source = ''X'', target = ''Y'',
                        interaction = ''calls'', weight = 1\<rparr>)]\<rparr>"

definition graphD2 :: "string IntermediateGraph" where
  "graphD2 =
     \<lparr>name = ''G2'', nodes = [(''Y'', ''Y''), (''Z'', ''Z'')],
      edges = [(''yw'', \<lparr>id_edge = ''yw'', source = ''Y'', target = ''W'',
                        interaction = ''calls'', weight = 1\<rparr>)]\<rparr>"

text \<open>
  Scenario B: the nodes \<open>A\<close> and \<open>B\<close> and two records, each with one dependency edge from
  \<open>A\<close> to \<open>B\<close>, the two edges with different element ids.
\<close>

definition rel :: "string \<Rightarrow> string \<Rightarrow> string \<Rightarrow> string \<Rightarrow> Neo4jComponentRelationship" where
  "rel i s t ty = \<lparr>elementId = i, startNodeElementId = s, endNodeElementId = t, type = ty\<rparr>"

definition plainNode :: "string \<Rightarrow> NodeData" where
  "plainNode i = \<lparr>id_node = i, label = i, kind = ''module'', layer = ''Module'', color = ''#fff'',
             depth = 0, selected = ''false'', parent = None\<rparr>"

definition scenarioB :: GraphPreProcessingService where
  "scenarioB =
     \<lparr>nodes_of = [plainNode ''A'', plainNode ''B''],
      records_of =
        [\<lparr>containSourceEdges = [], dependencyEdges = [rel ''d1'' ''A'' ''B'' ''CALLS''],
          containTargetEdges = []\<rparr>,
         \<lparr>containSourceEdges = [], dependencyEdges = [rel ''d2'' ''A'' ''B'' ''CALLS''],
          containTargetEdges = []\<rparr>]\<rparr>"

definition noOptions :: BasicGraphFilterOptions where
  "noOptions = \<lparr>maxDepth = None, selfEdges = None\<rparr>"

text \<open>
  Scenario A: the domain \<open>D\<close> contains \<open>M1\<close> and \<open>M2\<close>, and \<open>M1\<close> depends on \<open>M2\<close>; the one
  record runs from \<open>D\<close> down to \<open>M1\<close>, over the dependency, and up from \<open>M2\<close> to \<open>D\<close>.
\<close>

definition scenarioA :: GraphPreProcessingService where
  "scenarioA =
     \<lparr>nodes_of = [plainNode ''D''],
      records_of =
        [\<lparr>containSourceEdges = [rel ''c1'' ''D'' ''M1'' ''CONTAINS''],
          dependencyEdges = [rel ''d1'' ''M1'' ''M2'' ''CALLS''],
          containTargetEdges = [rel ''c2'' ''D'' ''M2'' ''CONTAINS'']\<rparr>]\<rparr>"

text \<open>
  A record from \<open>S\<close> to \<open>T\<close> whose dependency edge joins \<open>M1\<close> and \<open>M2\<close>, two nodes on the path
  that are neither its source nor its target.
\<close>

definition orphanInput :: GraphPreProcessingService where
  "orphanInput =
     \<lparr>nodes_of = [plainNode ''S'', plainNode ''T''],
      records_of =
        [\<lparr>containSourceEdges = [rel ''c1'' ''S'' ''M1'' ''CONTAINS''],
          dependencyEdges = [rel ''d1'' ''M1'' ''M2'' ''CALLS''],
          containTargetEdges = [rel ''c2'' ''T'' ''M2'' ''CONTAINS'']\<rparr>]\<rparr>"

text \<open>
  Records for the abstraction map: a record with three containment edges on either side; a
  record whose trailing chunk has one edge; and two records of one selected node \<open>S\<close> whose
  modules lie two and one level below the cutoff and depend on the same module \<open>M2\<close>.
\<close>

definition deepRecord :: Neo4jComponentPath where
  "deepRecord =
     \<lparr>containSourceEdges = [rel ''c1'' ''S'' ''A'' ''CONTAINS'', rel ''c2'' ''A'' ''B'' ''CONTAINS'',
                             rel ''c3'' ''B'' ''M'' ''CONTAINS''],
      dependencyEdges = [rel ''d1'' ''M'' ''M2'' ''CALLS''],
      containTargetEdges = [rel ''t1'' ''D'' ''L'' ''CONTAINS'', rel ''t2'' ''L'' ''K'' ''CONTAINS'',
                             rel ''t3'' ''K'' ''M2'' ''CONTAINS'']\<rparr>"

definition shortTrail :: Neo4jComponentPath where
  "shortTrail =
     \<lparr>containSourceEdges = [rel ''c1'' ''A'' ''B'' ''CONTAINS'', rel ''c2'' ''B'' ''C'' ''CONTAINS''],
      dependencyEdges = [rel ''d1'' ''C'' ''Q'' ''CALLS''],
      containTargetEdges = [rel ''t1'' ''P'' ''Q'' ''CONTAINS'']\<rparr>"

definition twoDepths :: "Neo4jComponentPath list" where
  "twoDepths =
     [\<lparr>containSourceEdges = [rel ''c1'' ''S'' ''A'' ''CONTAINS'', rel ''c2'' ''A'' ''B'' ''CONTAINS'',
                              rel ''c3'' ''B'' ''M'' ''CONTAINS''],
       dependencyEdges = [rel ''d1'' ''M'' ''M2'' ''CALLS''],
       containTargetEdges = [rel ''t1'' ''D'' ''L'' ''CONTAINS'', rel ''t2'' ''L'' ''M2'' ''CONTAINS'']\<rparr>,
      \<lparr>containSourceEdges = [rel ''c1'' ''S'' ''A'' ''CONTAINS'', rel ''c4'' ''A'' ''N'' ''CONTAINS''],
       dependencyEdges = [rel ''d2'' ''N'' ''M2'' ''CALLS''],
       containTargetEdges = [rel ''t1'' ''D'' ''L'' ''CONTAINS'', rel ''t2'' ''L'' ''M2'' ''CONTAINS'']\<rparr>]"

text \<open>
  Inputs of the violation projector. Rendered dependencies with one edge \<open>r1\<close>, from \<open>A\<close> to
  \<open>B\<close> or from \<open>A\<close> to itself; a node set where \<open>B\<close> and \<open>C\<close> were lifted from \<open>A\<close>; the cycle of
  Scenario C; and a cycle of two edges whose first edge is rendered as a self-edge and whose
  second edge is not rendered.
\<close>

definition moduleNode :: "string \<Rightarrow> Neo4jComponentNode option \<Rightarrow> Neo4jComponentNode" where
  "moduleNode i lifted = Neo4jComponentNode i [''Module''] i ''module'' ''#fff'' 4 lifted"

definition cycleEdge :: "string \<Rightarrow> string \<Rightarrow> string \<Rightarrow> ExtendedEdgeData" where
  "cycleEdge i s t =
     \<lparr>id_edge = i, source = s, target = t, interaction = ''calls'', weight = 1,
      sourceNode = toNodeData (moduleNode s None), targetNode = toNodeData (moduleNode t None)\<rparr>"

definition renderedAB :: "Neo4jDependencyRelationship MapSet" where
  "renderedAB =
     [(''r1'', \<lparr>elementId_dep = ''r1'', startNode = moduleNode ''A'' None,
               endNode = moduleNode ''B'' None, dependencyCycle = False\<rparr>)]"

definition renderedAA :: "Neo4jDependencyRelationship MapSet" where
  "renderedAA =
     [(''r1'', \<lparr>elementId_dep = ''r1'', startNode = moduleNode ''A'' None,
               endNode = moduleNode ''A'' None, dependencyCycle = False\<rparr>)]"

definition liftedNodes :: "Neo4jComponentNode MapSet" where
  "liftedNodes =
     [(''A'', moduleNode ''A'' None),
      (''B'', moduleNode ''B'' (Some (moduleNode ''A'' None))),
      (''C'', moduleNode ''C'' (Some (moduleNode ''A'' None)))]"

definition scenarioC :: DependencyCycle where
  "scenarioC =
     \<lparr>node = toNodeData (moduleNode ''A'' None),
      path = [cycleEdge ''r1'' ''A'' ''B'', cycleEdge ''r2'' ''B'' ''C'', cycleEdge ''r3'' ''C'' ''A''],
      length_cycle = 3\<rparr>"

definition hiddenMatch :: DependencyCycle where
  "hiddenMatch =
     \<lparr>node = toNodeData (moduleNode ''X'' None),
      path = [cycleEdge ''r1'' ''X'' ''Y'', cycleEdge ''r2'' ''Y'' ''X''],
      length_cycle = 2\<rparr>"

text \<open>Scenario B with its two records in the other order.\<close>

definition scenarioBswapped :: GraphPreProcessingService where
  "scenarioBswapped =
     \<lparr>nodes_of = [plainNode ''A'', plainNode ''B''],
      records_of =
        [\<lparr>containSourceEdges = [], dependencyEdges = [rel ''d2'' ''A'' ''B'' ''CALLS''],
          containTargetEdges = []\<rparr>,
         \<lparr>containSourceEdges = [], dependencyEdges = [rel ''d1'' ''A'' ''B'' ''CALLS''],
          containTargetEdges = []\<rparr>]\<rparr>"

text \<open>
  Inputs for the order of the records: a dependency edge and a containment edge on the same
  pair of nodes, in both orders; the cutoff 1; and two records of two branches below \<open>A\<close> that
  reach the same module \<open>M2\<close>.
\<close>

definition mixedKind :: GraphPreProcessingService where
  "mixedKind =
     \<lparr>nodes_of = [plainNode ''A'', plainNode ''B''],
      records_of =
        [\<lparr>containSourceEdges = [], dependencyEdges = [rel ''d1'' ''A'' ''B'' ''CALLS''],
          containTargetEdges = []\<rparr>,
         \<lparr>containSourceEdges = [rel ''c1'' ''A'' ''B'' ''CONTAINS''], dependencyEdges = [],
          containTargetEdges = []\<rparr>]\<rparr>"

definition cutoffOne :: BasicGraphFilterOptions where
  "cutoffOne = \<lparr>maxDepth = Some 1, selfEdges = None\<rparr>"

definition twoBranches :: "Neo4jComponentPath list" where
  "twoBranches =
     [deepRecord,
      \<lparr>containSourceEdges = [rel ''c1'' ''S'' ''A'' ''CONTAINS'', rel ''c4'' ''A'' ''B2'' ''CONTAINS'',
                              rel ''c5'' ''B2'' ''N'' ''CONTAINS''],
       dependencyEdges = [rel ''d2'' ''N'' ''M2'' ''CALLS''],
       containTargetEdges = [rel ''t1'' ''D'' ''L'' ''CONTAINS'', rel ''t2'' ''L'' ''K'' ''CONTAINS'',
                              rel ''t3'' ''K'' ''M2'' ''CONTAINS'']\<rparr>]"

definition mixedKindSwapped :: GraphPreProcessingService where
  "mixedKindSwapped =
     \<lparr>nodes_of = [plainNode ''A'', plainNode ''B''],
      records_of =
        [\<lparr>containSourceEdges = [rel ''c1'' ''A'' ''B'' ''CONTAINS''], dependencyEdges = [],
          containTargetEdges = []\<rparr>,
         \<lparr>containSourceEdges = [], dependencyEdges = [rel ''d1'' ''A'' ''B'' ''CALLS''],
          containTargetEdges = []\<rparr>]\<rparr>"

section \<open>Validation\<close>

lemma invalid_filter_map:
  assumes "list_all (\<lambda>e. source e \<noteq> [] \<and> target e \<noteq> []) es"
  shows "map edgeMessage (filter (\<lambda>e. source e \<noteq> [] \<or> target e \<noteq> []) (map (blankKnown ids) es))
         = map (describeMissing (set ids)) (filter (offending (set ids)) es)"
  using assms
  by (induction es) (auto simp: blankKnown_def edgeMessage_def describeMissing_def offending_def)

lemma invalid_filter_empty:
  assumes "list_all (\<lambda>e. source e \<noteq> [] \<and> target e \<noteq> []) es"
  shows "filter (\<lambda>e. source e \<noteq> [] \<or> target e \<noteq> []) (map (blankKnown ids) es) = []
         \<longleftrightarrow> (\<forall>e \<in> set es. source e \<in> set ids \<and> target e \<in> set ids)"
  using assms
  by (induction es) (auto simp: blankKnown_def)

text \<open>
  Why the ids are taken to be non-empty below: the validator marks a known endpoint by the
  empty string, so an endpoint id that is itself the empty string is read as known. Element
  ids of the database are never empty, so no graph of the merger has such an edge.
\<close>

lemma validateGraph_empty_id_sentinel:
  "values_of (edges graphEmptySource) = [edgeEmptySource]
   \<and> source edgeEmptySource \<notin> set (keys (nodes graphEmptySource))
   \<and> validateGraph graphEmptySource = Inr ()
   \<and> PostProcessingService (\<lambda>n. n) [graphEmptySource] = Inr graphEmptySource"
  by (simp add: graphEmptySource_def edgeEmptySource_def validateGraph_def keys_def values_of_def
      blankKnown_def PostProcessingService_def constructedGraph_def)

text \<open>
  C1. For the graph the constructor validates (the single graph given, or the merge of the
  graphs given), its edge endpoints being element ids and so non-empty: if some edge has a
  source or target id outside the node set, validation throws one error whose message names,
  in order, every such edge with the endpoint or endpoints missing, and the constructor yields
  that error and no graph; otherwise validation returns and the constructor yields the graph
  unchanged. So validation throws if and only if some endpoint is absent from the node set.
\<close>

theorem validateGraph_reports_missing_endpoints:
  assumes "nonEmptyEndpoints (constructedGraph nodeKey graphs)"
  shows "if \<exists>e \<in> set (values_of (edges (constructedGraph nodeKey graphs))).
               source e \<notin> set (keys (nodes (constructedGraph nodeKey graphs)))
             \<or> target e \<notin> set (keys (nodes (constructedGraph nodeKey graphs)))
         then validateGraph (constructedGraph nodeKey graphs)
                = Inl (invalidMessage (constructedGraph nodeKey graphs))
            \<and> PostProcessingService nodeKey graphs
                = Inl (invalidMessage (constructedGraph nodeKey graphs))
         else validateGraph (constructedGraph nodeKey graphs) = Inr ()
            \<and> PostProcessingService nodeKey graphs = Inr (constructedGraph nodeKey graphs)"
proof -
  define g where "g = constructedGraph nodeKey graphs"
  define bad where "bad = filter (\<lambda>e. source e \<noteq> [] \<or> target e \<noteq> [])
                           (map (blankKnown (keys (nodes g))) (values_of (edges g)))"
  have ne: "list_all (\<lambda>e. source e \<noteq> [] \<and> target e \<noteq> []) (values_of (edges g))"
    using assms by (simp add: nonEmptyEndpoints_def g_def)
  have empty: "bad = [] \<longleftrightarrow>
      (\<forall>e \<in> set (values_of (edges g)).
         source e \<in> set (keys (nodes g)) \<and> target e \<in> set (keys (nodes g)))"
    unfolding bad_def by (rule invalid_filter_empty [OF ne])
  have msg: "map edgeMessage bad
      = map (describeMissing (set (keys (nodes g))))
          (filter (offending (set (keys (nodes g)))) (values_of (edges g)))"
    unfolding bad_def by (rule invalid_filter_map [OF ne])
  have v: "validateGraph g = (if bad = [] then Inr () else Inl (invalidMessage g))"
    unfolding validateGraph_def Let_def bad_def [symmetric]
    by (simp add: msg invalidMessage_def)
  have p: "PostProcessingService nodeKey graphs
      = (if bad = [] then Inr g else Inl (invalidMessage g))"
    by (simp add: PostProcessingService_def Let_def g_def [symmetric] v)
  show ?thesis
    unfolding g_def [symmetric] using v p empty by auto
qed

theorem validateGraph_reports_missing_endpoints_witness:
  "nonEmptyEndpoints (constructedGraph (\<lambda>n. n) [graphD1, graphD2])
   \<and> PostProcessingService (\<lambda>n. n) [graphD1, graphD2]
       = Inl (''Graph '' @ quote @ ''Merged graph of '' @ quote @ ''G1, G2'' @ quote @ quote
              @ '' is invalid due to the following edges: ''
              @ ''Edge '' @ quote @ ''yw'' @ quote @ '': unknown target '' @ quote @ ''W'' @ quote)"
  using validateGraph_reports_missing_endpoints [of "\<lambda>n. n" "[graphD1, graphD2]"]
  by (simp add: graphD1_def graphD2_def constructedGraph_def mergeGraphs_def MapSet_of_def
      nonEmptyEndpoints_def values_of_def keys_def invalidMessage_def offending_def
      describeMissing_def)

section \<open>Edge deduplication\<close>

lemma findIndex_None: "findIndex P xs = None \<longleftrightarrow> (\<forall>x \<in> set xs. \<not> P x)"
  by (induction xs) auto

lemma findIndex_Some:
  "findIndex P xs = Some i \<Longrightarrow> i < length xs \<and> P (xs ! i) \<and> (\<forall>j < i. \<not> P (xs ! j))"
proof (induction xs arbitrary: i)
  case Nil
  then show ?case by simp
next
  case (Cons x xs)
  show ?case
  proof (cases "P x")
    case True
    with Cons.prems show ?thesis by simp
  next
    case False
    with Cons.prems obtain k where k: "findIndex P xs = Some k" "i = Suc k"
      by auto
    from Cons.IH [OF k(1)] False k(2) show ?thesis
      by (auto simp: nth_Cons split: nat.splits)
  qed
qed

lemma endpoints_mergeEdge:
  "map endpoints (mergeEdge acc x) =
     (if endpoints x \<in> set (map endpoints acc) then map endpoints acc
      else map endpoints acc @ [endpoints x])"
proof (cases "findIndex (\<lambda>e. source e = source x \<and> target e = target x) acc")
  case None
  then have "endpoints x \<notin> set (map endpoints acc)"
    by (auto simp: findIndex_None endpoints_def)
  with None show ?thesis by (simp add: mergeEdge_def)
next
  case (Some i)
  from findIndex_Some [OF Some] have i: "i < length acc" "endpoints (acc ! i) = endpoints x"
    by (auto simp: endpoints_def)
  then have "endpoints x \<in> set (map endpoints acc)"
    by (metis length_map nth_map nth_mem)
  moreover have "map endpoints (acc[i := (acc ! i)\<lparr>weight := weight (acc ! i) + weight x\<rparr>])
      = map endpoints acc"
    using i by (simp add: map_update endpoints_def list_update_same_conv)
  ultimately show ?thesis using Some by (simp add: mergeEdge_def)
qed

lemma sum_list_update_int:
  "k < length xs \<Longrightarrow> sum_list (xs[k := x]) = sum_list xs + x - (xs ! k :: int)"
  by (induction xs arbitrary: k) (auto split: nat.splits)

lemma pairWeight_mergeEdge:
  "pairWeight p (mergeEdge acc x) = pairWeight p acc + (if endpoints x = p then weight x else 0)"
proof (cases "findIndex (\<lambda>e. source e = source x \<and> target e = target x) acc")
  case None
  then show ?thesis by (simp add: mergeEdge_def pairWeight_def)
next
  case (Some i)
  from findIndex_Some [OF Some] have i: "i < length acc" "endpoints (acc ! i) = endpoints x"
    by (auto simp: endpoints_def)
  let ?f = "\<lambda>e. if endpoints e = p then weight e else 0"
  let ?y = "(acc ! i)\<lparr>weight := weight (acc ! i) + weight x\<rparr>"
  have "sum_list ((map ?f acc)[i := ?f ?y]) = sum_list (map ?f acc) + ?f ?y - (map ?f acc) ! i"
    using i(1) by (simp add: sum_list_update_int)
  then have "sum_list (map ?f (acc[i := ?y])) = sum_list (map ?f acc) + (?f ?y - ?f (acc ! i))"
    using i(1) by (simp add: map_update)
  moreover have "?f ?y - ?f (acc ! i) = (if endpoints x = p then weight x else 0)"
    using i(2) by (simp add: endpoints_def)
  ultimately have "sum_list (map ?f (acc[i := ?y]))
      = sum_list (map ?f acc) + (if endpoints x = p then weight x else 0)"
    by (simp only:)
  moreover have "mergeEdge acc x = acc[i := ?y]"
    using Some by (simp add: mergeEdge_def)
  ultimately show ?thesis
    by (simp only: pairWeight_def)
qed

lemma distinct_endpoints_foldl:
  "distinct (map endpoints acc) \<Longrightarrow> distinct (map endpoints (foldl mergeEdge acc xs))"
  by (induction xs arbitrary: acc) (simp_all add: endpoints_mergeEdge)

lemma set_endpoints_mergeEdge:
  "endpoints ` set (mergeEdge acc x) = insert (endpoints x) (endpoints ` set acc)"
proof -
  have "set (map endpoints (mergeEdge acc x)) = insert (endpoints x) (set (map endpoints acc))"
    unfolding endpoints_mergeEdge by auto
  then show ?thesis by simp
qed

lemma set_endpoints_foldl:
  "endpoints ` set (foldl mergeEdge acc xs) = endpoints ` set acc \<union> endpoints ` set xs"
  by (induction xs arbitrary: acc) (simp_all add: set_endpoints_mergeEdge)

lemma pairWeight_foldl:
  "pairWeight p (foldl mergeEdge acc xs) = pairWeight p acc + pairWeight p xs"
proof (induction xs arbitrary: acc)
  case Nil
  then show ?case by (simp add: pairWeight_def)
next
  case (Cons x xs)
  have "pairWeight p (x # xs) = (if endpoints x = p then weight x else 0) + pairWeight p xs"
    by (simp add: pairWeight_def)
  then show ?case using Cons.IH [of "mergeEdge acc x"]
    by (simp add: pairWeight_mergeEdge)
qed

lemma pairWeight_distinct:
  "distinct (map endpoints es) \<Longrightarrow> e \<in> set es \<Longrightarrow> pairWeight (endpoints e) es = weight e"
proof (induction es)
  case Nil
  then show ?case by simp
next
  case (Cons a es)
  have notin: "x \<in> set es \<Longrightarrow> endpoints x \<noteq> endpoints a" for x
    using Cons.prems(1) by (auto simp: image_iff)
  show ?case
  proof (cases "e = a")
    case True
    have "sum_list (map (\<lambda>x. if endpoints x = endpoints a then weight x else 0) es) = 0"
      using Cons.prems(1) by (induction es) auto
    then show ?thesis using True by (simp add: pairWeight_def)
  next
    case False
    then have "e \<in> set es" using Cons.prems(2) by simp
    then show ?thesis using Cons notin [of e] by (auto simp: pairWeight_def)
  qed
qed

lemma pairWeight_unit:
  "\<forall>e \<in> set es. weight e = 1 \<Longrightarrow>
   pairWeight p es = int (length (filter (\<lambda>e. endpoints e = p) es))"
  by (induction es) (auto simp: pairWeight_def)

lemma collectEdges_weight: "e \<in> set (collectEdges seen rs) \<Longrightarrow> weight e = 1"
  by (induction seen rs rule: collectEdges.induct) (auto simp: toEdgeData_def split: if_splits)

lemma collectEdges_ids:
  "set (map id_edge (collectEdges seen rs)) = set (map elementId rs) - set seen"
  by (induction seen rs rule: collectEdges.induct) (auto simp: toEdgeData_def)

lemma collectEdges_distinct: "distinct (map id_edge (collectEdges seen rs))"
proof (induction seen rs rule: collectEdges.induct)
  case (1 seen)
  then show ?case by simp
next
  case (2 seen r rs)
  have "elementId r \<notin> set (map id_edge (collectEdges (seen @ [elementId r]) rs))"
    unfolding collectEdges_ids by simp
  with 2 show ?case by (auto simp: toEdgeData_def)
qed

lemma collectEdges_subset: "set (collectEdges seen rs) \<subseteq> toEdgeData ` set rs"
  by (induction seen rs rule: collectEdges.induct) auto

text \<open>
  C4. After \<open>getAllEdges\<close> and \<open>mergeDuplicateEdges\<close> no two edges share a (source, target)
  pair, the pairs are those of the raw edges, and the weight of every edge is the number of
  distinct element ids among the raw edges with its pair; the raw edges are one per element
  id of the records. Scenario B, two dependency edges from A to B with different ids, gives one
  edge of weight 2 (the witness).
\<close>

theorem mergeDuplicateEdges_weight_counts:
  "distinct (map endpoints (mergeDuplicateEdges (getAllEdges records)))
   \<and> endpoints ` set (mergeDuplicateEdges (getAllEdges records))
       = endpoints ` set (getAllEdges records)
   \<and> (\<forall>e \<in> set (mergeDuplicateEdges (getAllEdges records)).
         weight e = int (card (id_edge ` {r \<in> set (getAllEdges records). endpoints r = endpoints e})))
   \<and> distinct (map id_edge (getAllEdges records))
   \<and> id_edge ` set (getAllEdges records) = elementId ` set (concat (map allEdges records))"
proof -
  define raw where "raw = getAllEdges records"
  define merged where "merged = mergeDuplicateEdges raw"
  have d: "distinct (map endpoints merged)"
    unfolding merged_def mergeDuplicateEdges_def by (rule distinct_endpoints_foldl) simp
  have s: "endpoints ` set merged = endpoints ` set raw"
    unfolding merged_def mergeDuplicateEdges_def by (simp add: set_endpoints_foldl)
  have ids: "distinct (map id_edge raw)"
    unfolding raw_def getAllEdges_def by (rule collectEdges_distinct)
  have unit: "\<forall>e \<in> set raw. weight e = 1"
    unfolding raw_def getAllEdges_def by (auto dest: collectEdges_weight)
  have w: "weight e = int (card (id_edge ` {r \<in> set raw. endpoints r = endpoints e}))"
    if e: "e \<in> set merged" for e
  proof -
    have "weight e = pairWeight (endpoints e) merged"
      using pairWeight_distinct [OF d e] by simp
    also have "\<dots> = pairWeight (endpoints e) [] + pairWeight (endpoints e) raw"
      unfolding merged_def mergeDuplicateEdges_def by (rule pairWeight_foldl)
    also have "\<dots> = pairWeight (endpoints e) raw"
      by (simp add: pairWeight_def)
    also have "\<dots> = int (length (filter (\<lambda>r. endpoints r = endpoints e) raw))"
      by (rule pairWeight_unit [OF unit])
    also have "length (filter (\<lambda>r. endpoints r = endpoints e) raw)
        = card (set (map id_edge (filter (\<lambda>r. endpoints r = endpoints e) raw)))"
      using distinct_card [OF distinct_map_filter [OF ids, of "\<lambda>r. endpoints r = endpoints e"]]
      by (simp only: length_map)
    also have "set (map id_edge (filter (\<lambda>r. endpoints r = endpoints e) raw))
        = id_edge ` {r \<in> set raw. endpoints r = endpoints e}"
      by auto
    finally show ?thesis .
  qed
  have all: "id_edge ` set raw = elementId ` set (concat (map allEdges records))"
    using collectEdges_ids [of "[]" "concat (map allEdges records)"]
    unfolding raw_def getAllEdges_def by simp
  show ?thesis
    using d s w ids all unfolding merged_def raw_def by blast
qed

lemma scenarioB_raw:
  "getAllEdges (records_of scenarioB)
     = [\<lparr>id_edge = ''d1'', source = ''A'', target = ''B'', interaction = ''calls'', weight = 1\<rparr>,
        \<lparr>id_edge = ''d2'', source = ''A'', target = ''B'', interaction = ''calls'', weight = 1\<rparr>]"
  by (simp add: scenarioB_def getAllEdges_def allEdges_def rel_def toEdgeData_def
      toLowerCase_def lowerChar_def)

lemma scenarioB_merged:
  "mergeDuplicateEdges (getAllEdges (records_of scenarioB))
     = [\<lparr>id_edge = ''d1'', source = ''A'', target = ''B'', interaction = ''calls'', weight = 2\<rparr>]"
  by (simp add: scenarioB_raw mergeDuplicateEdges_def mergeEdge_def)

theorem mergeDuplicateEdges_weight_counts_witness:
  "graph_edges (formatToLPG scenarioB ''B'' noOptions)
     = [\<lparr>id_edge = ''d1'', source = ''A'', target = ''B'', interaction = ''calls'', weight = 2\<rparr>]
   \<and> card (id_edge ` {r \<in> set (getAllEdges (records_of scenarioB)). endpoints r = (''A'', ''B'')}) = 2"
  using mergeDuplicateEdges_weight_counts [of "records_of scenarioB"]
  by (simp add: scenarioB_merged formatToLPG_def mergedEdges_def noOptions_def
      replaceEdgeWithParentRelationship_def endpoints_def Let_def)

section \<open>The graph of the abstraction engine\<close>

lemma graph_edges_formatToLPG:
  "graph_edges (formatToLPG original graphName options) =
     (if selfEdges options = Some False
      then filterSelfEdges (filter (\<lambda>e. interaction e \<noteq> ''contains'') (mergedEdges original options))
      else filter (\<lambda>e. interaction e \<noteq> ''contains'') (mergedEdges original options))"
  by (simp add: formatToLPG_def replaceEdgeWithParentRelationship_def Let_def)

text \<open>
  C10. The self-edge filter runs only when \<open>selfEdges\<close> is exactly \<open>false\<close>: with \<open>selfEdges\<close>
  undefined or \<open>true\<close> the returned edges are all deduplicated edges that are no containment
  edges, so every such self-edge is among them; with \<open>false\<close> they are those with different
  source and target. (Containment edges are never returned, whatever the option.)
\<close>

theorem selfEdges_filtered_only_when_false:
  "(selfEdges options \<noteq> Some False \<longrightarrow>
      graph_edges (formatToLPG original graphName options)
        = filter (\<lambda>e. interaction e \<noteq> ''contains'') (mergedEdges original options)
      \<and> (\<forall>e \<in> set (mergedEdges original options).
            source e = target e \<and> interaction e \<noteq> ''contains''
            \<longrightarrow> e \<in> set (graph_edges (formatToLPG original graphName options))))
   \<and> (selfEdges options = Some False \<longrightarrow>
      graph_edges (formatToLPG original graphName options)
        = filter (\<lambda>e. source e \<noteq> target e)
            (filter (\<lambda>e. interaction e \<noteq> ''contains'') (mergedEdges original options)))"
proof (intro conjI impI ballI)
  assume kept: "selfEdges options \<noteq> Some False"
  then show all: "graph_edges (formatToLPG original graphName options)
        = filter (\<lambda>e. interaction e \<noteq> ''contains'') (mergedEdges original options)"
    by (simp add: graph_edges_formatToLPG)
  fix e
  assume "e \<in> set (mergedEdges original options)"
    and "source e = target e \<and> interaction e \<noteq> ''contains''"
  then show "e \<in> set (graph_edges (formatToLPG original graphName options))"
    unfolding all by simp
next
  assume "selfEdges options = Some False"
  then show "graph_edges (formatToLPG original graphName options)
        = filter (\<lambda>e. source e \<noteq> target e)
            (filter (\<lambda>e. interaction e \<noteq> ''contains'') (mergedEdges original options))"
    by (simp add: graph_edges_formatToLPG filterSelfEdges_def)
qed

lemma scenarioA_merged:
  "mergedEdges scenarioA \<lparr>maxDepth = Some 0, selfEdges = s\<rparr>
     = [\<lparr>id_edge = ''d1'', source = ''D'', target = ''D'', interaction = ''calls'', weight = 1\<rparr>]"
  by (simp add: mergedEdges_def scenarioA_def getAbstractionMap_def abstractRecord_def
      sourceDepth_def targetDepth_def splice_def addToReplaceMap_def applyAbstraction_def
      abstractEdge_def applyMap_def rel_def getAllEdges_def allEdges_def toEdgeData_def
      toLowerCase_def lowerChar_def mergeDuplicateEdges_def mergeEdge_def Let_def)

theorem selfEdges_filtered_only_when_false_witness:
  "graph_edges (formatToLPG scenarioA ''A'' \<lparr>maxDepth = Some 0, selfEdges = None\<rparr>)
     = [\<lparr>id_edge = ''d1'', source = ''D'', target = ''D'', interaction = ''calls'', weight = 1\<rparr>]
   \<and> graph_edges (formatToLPG scenarioA ''A'' \<lparr>maxDepth = Some 0, selfEdges = Some True\<rparr>)
     = [\<lparr>id_edge = ''d1'', source = ''D'', target = ''D'', interaction = ''calls'', weight = 1\<rparr>]
   \<and> graph_edges (formatToLPG scenarioA ''A'' \<lparr>maxDepth = Some 0, selfEdges = Some False\<rparr>) = []"
  using selfEdges_filtered_only_when_false [of "\<lparr>maxDepth = Some 0, selfEdges = None\<rparr>" scenarioA "''A''"]
    selfEdges_filtered_only_when_false [of "\<lparr>maxDepth = Some 0, selfEdges = Some True\<rparr>" scenarioA "''A''"]
    selfEdges_filtered_only_when_false [of "\<lparr>maxDepth = Some 0, selfEdges = Some False\<rparr>" scenarioA "''A''"]
  by (simp add: scenarioA_merged)

lemma set_firstOccurrences: "set (firstOccurrences xs) = set xs"
proof
  show "set (firstOccurrences xs) \<subseteq> set xs"
    by (auto simp: firstOccurrences_def dest: set_zip_leftD)
next
  show "set xs \<subseteq> set (firstOccurrences xs)"
  proof
    fix x assume x: "x \<in> set xs"
    then have "findIndex (\<lambda>n2. x = n2) xs \<noteq> None"
      by (simp add: findIndex_None)
    then obtain i where i: "findIndex (\<lambda>n2. x = n2) xs = Some i" by blast
    from findIndex_Some [OF i] have "i < length xs" "xs ! i = x" by auto
    then have "(x, i) \<in> set (zip xs [0 ..< length xs])"
      by (auto simp: set_zip)
    with i show "x \<in> set (firstOccurrences xs)"
      by (force simp: firstOccurrences_def)
  qed
qed

lemma id_node_setParent: "map id_node (setParent e ns) = map id_node ns"
proof (cases "findIndex (\<lambda>n. id_node n = target e) ns")
  case None
  then show ?thesis by (simp add: setParent_def)
next
  case (Some i)
  then show ?thesis
    by (simp add: setParent_def map_update list_update_same_conv findIndex_Some)
qed

lemma id_node_addParentRelationship:
  "map id_node (addParentRelationship ns es) = map id_node ns"
  unfolding addParentRelationship_def
  by (induction es arbitrary: ns) (simp_all add: id_node_setParent)

lemma ids_filterNodesByEdges:
  "id_node ` set (filterNodesByEdges ns es)
     = {i \<in> id_node ` set ns. \<exists>e \<in> set es. i = source e \<or> i = target e}"
  by (auto simp: filterNodesByEdges_def set_firstOccurrences)

lemma ids_graph_nodes:
  "id_node ` set (graph_nodes (formatToLPG original graphName options))
     = {i \<in> id_node ` set (nodes_of original).
          \<exists>e \<in> set (mergedEdges original options). i = source e \<or> i = target e}"
proof -
  have "map id_node (graph_nodes (formatToLPG original graphName options))
      = map id_node (filterNodesByEdges (nodes_of original) (mergedEdges original options))"
    by (simp add: formatToLPG_def replaceEdgeWithParentRelationship_def Let_def
        id_node_addParentRelationship)
  then have "set (map id_node (graph_nodes (formatToLPG original graphName options)))
      = set (map id_node (filterNodesByEdges (nodes_of original) (mergedEdges original options)))"
    by simp
  then show ?thesis
    by (simp add: ids_filterNodesByEdges)
qed

lemma graph_edges_subset:
  "set (graph_edges (formatToLPG original graphName options)) \<subseteq> set (mergedEdges original options)"
  by (auto simp: formatToLPG_def replaceEdgeWithParentRelationship_def Let_def filterSelfEdges_def)

text \<open>
  C8 (as stated, refuted). The node list of \<open>formatToLPG\<close> is the node list of the
  pre-processor (the sources and targets of the records) cut down to the endpoints of the
  edges; nothing adds the other nodes of a path. Here the returned edge joins \<open>M1\<close> and
  \<open>M2\<close>, and the returned nodes are \<open>S\<close> and \<open>T\<close>.
\<close>

theorem formatToLPG_orphan_counterexample:
  "graph_edges (formatToLPG orphanInput ''G'' noOptions)
     = [\<lparr>id_edge = ''d1'', source = ''M1'', target = ''M2'', interaction = ''calls'', weight = 1\<rparr>]
   \<and> map id_node (graph_nodes (formatToLPG orphanInput ''G'' noOptions)) = [''S'', ''T'']
   \<and> ''M1'' \<notin> set [''S'', ''T''] \<and> ''M2'' \<notin> set [''S'', ''T'']"
  by (simp add: formatToLPG_def mergedEdges_def noOptions_def orphanInput_def getAllEdges_def
      allEdges_def rel_def plainNode_def toEdgeData_def toLowerCase_def lowerChar_def
      mergeDuplicateEdges_def mergeEdge_def filterNodesByEdges_def set_firstOccurrences
      replaceEdgeWithParentRelationship_def addParentRelationship_def setParent_def Let_def)

text \<open>
  C8 (amended). For every graph returned by \<open>formatToLPG\<close>: an endpoint of a returned edge that
  is the id of a node of the pre-processor occurs in the returned node list; and every returned
  node is a node of the pre-processor that is the source or the target of a deduplicated edge.
\<close>

theorem formatToLPG_nodes_are_endpoints:
  "(\<forall>e \<in> set (graph_edges (formatToLPG original graphName options)).
      (source e \<in> id_node ` set (nodes_of original)
         \<longrightarrow> source e \<in> id_node ` set (graph_nodes (formatToLPG original graphName options)))
    \<and> (target e \<in> id_node ` set (nodes_of original)
         \<longrightarrow> target e \<in> id_node ` set (graph_nodes (formatToLPG original graphName options))))
   \<and> (\<forall>n \<in> set (graph_nodes (formatToLPG original graphName options)).
        id_node n \<in> id_node ` set (nodes_of original)
        \<and> (\<exists>e \<in> set (mergedEdges original options). id_node n = source e \<or> id_node n = target e))"
proof (intro conjI ballI impI)
  fix e assume e: "e \<in> set (graph_edges (formatToLPG original graphName options))"
  then have m: "e \<in> set (mergedEdges original options)"
    using graph_edges_subset by blast
  { assume "source e \<in> id_node ` set (nodes_of original)"
    with m show "source e \<in> id_node ` set (graph_nodes (formatToLPG original graphName options))"
      unfolding ids_graph_nodes by blast }
  { assume "target e \<in> id_node ` set (nodes_of original)"
    with m show "target e \<in> id_node ` set (graph_nodes (formatToLPG original graphName options))"
      unfolding ids_graph_nodes by blast }
next
  fix n assume "n \<in> set (graph_nodes (formatToLPG original graphName options))"
  then have n: "id_node n \<in> id_node ` set (graph_nodes (formatToLPG original graphName options))"
    by blast
  from n show "id_node n \<in> id_node ` set (nodes_of original)"
    unfolding ids_graph_nodes by blast
  from n show "\<exists>e \<in> set (mergedEdges original options). id_node n = source e \<or> id_node n = target e"
    unfolding ids_graph_nodes by blast
qed

theorem formatToLPG_nodes_are_endpoints_witness:
  "graph_edges (formatToLPG scenarioB ''B'' noOptions)
     = [\<lparr>id_edge = ''d1'', source = ''A'', target = ''B'', interaction = ''calls'', weight = 2\<rparr>]
   \<and> ''A'' \<in> id_node ` set (graph_nodes (formatToLPG scenarioB ''B'' noOptions))
   \<and> ''B'' \<in> id_node ` set (graph_nodes (formatToLPG scenarioB ''B'' noOptions))"
proof -
  have e: "graph_edges (formatToLPG scenarioB ''B'' noOptions)
     = [\<lparr>id_edge = ''d1'', source = ''A'', target = ''B'', interaction = ''calls'', weight = 2\<rparr>]"
    by (simp add: scenarioB_merged formatToLPG_def mergedEdges_def noOptions_def
      replaceEdgeWithParentRelationship_def Let_def)
  have n: "id_node ` set (nodes_of scenarioB) = {''A'', ''B''}"
    by (simp add: scenarioB_def plainNode_def)
  show ?thesis
    using formatToLPG_nodes_are_endpoints [of scenarioB "''B''" noOptions]
    by (simp add: e n)
qed

section \<open>The abstraction map\<close>

lemma splice_to_end:
  assumes "0 \<le> s" "0 \<le> c" "s + c = int (length xs)"
  shows "splice xs s c = (drop (nat s) xs, take (nat s) xs)"
proof -
  have "nat c = length xs - nat s" using assms by linarith
  then show ?thesis using assms by (simp add: splice_def Let_def min_def)
qed

lemma splice_nothing: "splice xs s 0 = ([], xs)"
  by (simp add: splice_def Let_def)

lemma splice_leading:
  assumes "0 \<le> d"
  shows "splice xs d (max 0 (int (length xs) - d)) = (drop (nat d) xs, take (nat d) xs)"
proof (cases "d \<le> int (length xs)")
  case True
  then show ?thesis using assms by (simp add: splice_to_end)
next
  case False
  then have "max 0 (int (length xs) - d) = 0" "length xs \<le> nat d" by auto
  then show ?thesis by (simp add: splice_nothing)
qed

lemma splice_trailing:
  assumes "k \<le> length xs"
  shows "splice xs (int (length xs) - int k) (int k) = (drop (length xs - k) xs, take (length xs - k) xs)"
proof -
  have "nat (int (length xs) - int k) = length xs - k" by simp
  with splice_to_end [of "int (length xs) - int k" "int k" xs] assms show ?thesis by simp
qed

lemma abstractRecord_rule:
  assumes d: "0 \<le> d" and k: "excess d (containSourceEdges record) \<le> length (containTargetEdges record)"
  shows "abstractRecord d record m =
           (addToReplaceMap (trailingRun d record) (addToReplaceMap (leadingRun d record) m),
            cutRecord d record)"
proof -
  have e: "max 0 (sourceDepth record - d) = int (excess d (containSourceEdges record))"
    using d by (simp add: sourceDepth_def excess_def)
  show ?thesis
    unfolding abstractRecord_def Let_def e
    using splice_leading [OF d, of "containSourceEdges record"] splice_trailing [OF k] e
    by (simp add: sourceDepth_def targetDepth_def leadingRun_def trailingRun_def cutRecord_def)
qed

lemma map_of_fold_update:
  "map_of (fold (\<lambda>e m. AList.update (f e) v m) xs m) = map_of (rev (map (\<lambda>e. (f e, v)) xs) @ m)"
proof (induction xs arbitrary: m)
  case Nil
  then show ?case by simp
next
  case (Cons x xs)
  have "map_of (AList.update (f x) v m) = map_of ((f x, v) # m)"
    by (simp add: update_conv')
  then show ?case using Cons.IH [of "AList.update (f x) v m"] by simp
qed

lemma map_of_addToReplaceMap:
  "map_of (addToReplaceMap run m) = map_of (rev (runEntries run) @ m)"
proof (cases run)
  case Nil
  then show ?thesis by (simp add: addToReplaceMap_def runEntries_def)
next
  case (Cons first rest)
  then show ?thesis
    unfolding addToReplaceMap_def runEntries_def
    using map_of_fold_update [of endNodeElementId "startNodeElementId first" run m]
    by simp
qed

lemma abstractRecords_rule:
  assumes d: "0 \<le> d"
    and k: "\<forall>record \<in> set records.
              excess d (containSourceEdges record) \<le> length (containTargetEdges record)"
  shows "map_of (fst (abstractRecords d records m))
           = map_of (rev (concat (map (ruleEntries d) records)) @ m)
         \<and> snd (abstractRecords d records m) = map (cutRecord d) records"
  using k
proof (induction records arbitrary: m)
  case Nil
  then show ?case by simp
next
  case (Cons r rs)
  define m1 where "m1 = addToReplaceMap (trailingRun d r) (addToReplaceMap (leadingRun d r) m)"
  have step: "abstractRecord d r m = (m1, cutRecord d r)"
    unfolding m1_def using Cons.prems by (intro abstractRecord_rule [OF d]) simp
  have m1: "map_of m1 = map_of (rev (ruleEntries d r) @ m)"
    unfolding m1_def by (simp add: map_of_addToReplaceMap ruleEntries_def)
  from Cons.IH [of m1] Cons.prems
  have ih: "map_of (fst (abstractRecords d rs m1))
              = map_of (rev (concat (map (ruleEntries d) rs)) @ m1)"
       "snd (abstractRecords d rs m1) = map (cutRecord d) rs"
    by simp_all
  have "map_of (rev (concat (map (ruleEntries d) rs)) @ m1)
      = map_of (rev (concat (map (ruleEntries d) (r # rs))) @ m)"
    using m1 by simp
  with ih step show ?case
    by (simp add: split_beta)
qed

lemma containsDepth_containment: "containmentChunk chunk \<Longrightarrow> containsDepth chunk = int (length chunk)"
  by (cases chunk) (auto simp: containmentChunk_def containsDepth_def)

lemma nth_last_chunk: "(x # mid @ [t]) ! (length (x # mid @ [t]) - 1) = t"
  by (simp add: nth_append)

lemma update_last_chunk: "(x # mid @ [t])[length (x # mid @ [t]) - 1 := y] = x # mid @ [y]"
  by simp

lemma abstractChunks_forward:
  assumes d: "0 \<le> d" and c: "containmentChunk lead" "containmentChunk trail"
    and k: "excess d lead \<le> length trail"
  shows "abstractChunks d False (lead # mid @ [trail]) m =
           Inr (addToReplaceMap (drop (length trail - excess d lead) trail)
                  (addToReplaceMap (drop (nat d) lead) m),
                take (nat d) lead # mid @ [take (length trail - excess d lead) trail])"
proof -
  have e: "max 0 (int (length lead) - d) = int (excess d lead)"
    using d by (simp add: excess_def)
  have l: "length (lead # mid @ [trail]) - 1 = Suc (length mid)" by simp
  show ?thesis
    unfolding abstractChunks_def Let_def
    using splice_leading [OF d, of lead] splice_trailing [OF k] e
    by (simp add: containsDepth_containment c nth_append)
qed

lemma abstractChunks_reverse:
  assumes d: "0 \<le> d" and c: "containmentChunk lead" "containmentChunk trail"
    and k: "excess d trail \<le> length lead"
  shows "abstractChunks d True (lead # mid @ [trail]) m =
           Inr (addToReplaceMap (drop (nat d) trail)
                  (addToReplaceMap (drop (length lead - excess d trail) lead) m),
                take (length lead - excess d trail) lead # mid @ [take (nat d) trail])"
proof -
  have e: "max 0 (int (length trail) - d) = int (excess d trail)"
    using d by (simp add: excess_def)
  show ?thesis
    unfolding abstractChunks_def Let_def
    using splice_leading [OF d, of trail] splice_trailing [OF k] e
    by (simp add: containsDepth_containment c nth_append)
qed

text \<open>
  C2 (amended). With a cutoff \<open>d \<ge> 0\<close>: the leading containment chunk loses its edges from position
  \<open>d\<close> on, and the trailing chunk loses, from its end, as many edges as the leading chunk had in
  excess (not its own excess), provided it has that many; each deleted edge's end node maps to
  the start node of the first deleted edge of its run, later entries overwriting earlier ones.
  The map of \<open>getAbstractionMap\<close> has exactly these entries, and the records keep what is left.
  With the direction flag of the older version the roles are mirrored: reversed, the trailing
  chunk is cut from position \<open>d\<close> on and the leading chunk loses as many edges from its end.
\<close>

theorem getAbstractionMap_rule:
  assumes "0 \<le> d"
  shows "(list_all (fitsTrailing d) records \<longrightarrow>
          map_of (fst (getAbstractionMap records d))
            = map_of (rev (concat (map (ruleEntries d) records)))
          \<and> snd (getAbstractionMap records d) = map (cutRecord d) records)
       \<and> (containmentChunk lead \<and> containmentChunk trail \<and> excess d lead \<le> length trail \<longrightarrow>
          abstractChunks d False (lead # mid @ [trail]) m =
            Inr (addToReplaceMap (drop (length trail - excess d lead) trail)
                   (addToReplaceMap (drop (nat d) lead) m),
                 take (nat d) lead # mid @ [take (length trail - excess d lead) trail]))
       \<and> (containmentChunk lead \<and> containmentChunk trail \<and> excess d trail \<le> length lead \<longrightarrow>
          abstractChunks d True (lead # mid @ [trail]) m =
            Inr (addToReplaceMap (drop (nat d) trail)
                   (addToReplaceMap (drop (length lead - excess d trail) lead) m),
                 take (length lead - excess d trail) lead # mid @ [take (nat d) trail]))"
proof (intro conjI impI)
  assume "list_all (fitsTrailing d) records"
  then have "\<forall>record \<in> set records.
            excess d (containSourceEdges record) \<le> length (containTargetEdges record)"
    by (simp add: list_all_iff fitsTrailing_def)
  from abstractRecords_rule [OF assms this, of "[]"]
  show "map_of (fst (getAbstractionMap records d))
            = map_of (rev (concat (map (ruleEntries d) records)))"
    and "snd (getAbstractionMap records d) = map (cutRecord d) records"
    by (simp_all add: getAbstractionMap_def)
next
  assume "containmentChunk lead \<and> containmentChunk trail \<and> excess d lead \<le> length trail"
  then show "abstractChunks d False (lead # mid @ [trail]) m =
            Inr (addToReplaceMap (drop (length trail - excess d lead) trail)
                   (addToReplaceMap (drop (nat d) lead) m),
                 take (nat d) lead # mid @ [take (length trail - excess d lead) trail])"
    using abstractChunks_forward [OF assms] by blast
next
  assume "containmentChunk lead \<and> containmentChunk trail \<and> excess d trail \<le> length lead"
  then show "abstractChunks d True (lead # mid @ [trail]) m =
            Inr (addToReplaceMap (drop (nat d) trail)
                   (addToReplaceMap (drop (length lead - excess d trail) lead) m),
                 take (length lead - excess d trail) lead # mid @ [take (nat d) trail])"
    using abstractChunks_reverse [OF assms] by blast
qed

lemma abstractRecords_runs:
  "fst (abstractRecords d records m) = fold addToReplaceMap (concat (map (deletedRuns d) records)) m"
proof (induction records arbitrary: m)
  case Nil
  then show ?case by simp
next
  case (Cons r rs)
  have "fst (abstractRecord d r m) = fold addToReplaceMap (deletedRuns d r) m"
    by (simp add: abstractRecord_def deletedRuns_def Let_def split_beta)
  then show ?case using Cons.IH [of "fst (abstractRecord d r m)"]
    by (simp add: split_beta)
qed

lemma distinct_addToReplaceMap:
  "distinct (map fst m) \<Longrightarrow> distinct (map fst (addToReplaceMap run m))"
proof -
  have "distinct (map fst m') \<Longrightarrow> distinct (map fst (fold (\<lambda>e m. AList.update (f e) v m) xs m'))"
    for f :: "Neo4jComponentRelationship \<Rightarrow> string" and v :: string and xs and m' :: ReplaceMap
    by (induction xs arbitrary: m') (simp_all add: distinct_update)
  then show "distinct (map fst m) \<Longrightarrow> distinct (map fst (addToReplaceMap run m))"
    by (cases run) (simp_all add: addToReplaceMap_def distinct_update)
qed

lemma distinct_fold_runs:
  "distinct (map fst m) \<Longrightarrow> distinct (map fst (fold addToReplaceMap runs m))"
  by (induction runs arbitrary: m) (simp_all add: distinct_addToReplaceMap)

lemma lookup_addToReplaceMap:
  assumes "map_of (addToReplaceMap run m) k = Some v"
  shows "(run \<noteq> [] \<and> k \<in> endNodeElementId ` set run \<and> v = startNodeElementId (hd run))
         \<or> map_of m k = Some v"
proof -
  from assms have "map_of (rev (runEntries run)) k = Some v \<or> map_of m k = Some v"
    by (auto simp: map_of_addToReplaceMap map_add_Some_iff)
  moreover have "run \<noteq> [] \<and> k \<in> endNodeElementId ` set run \<and> v = startNodeElementId (hd run)"
    if "map_of (rev (runEntries run)) k = Some v"
  proof -
    from that have "(k, v) \<in> set (runEntries run)"
      by (auto dest: map_of_SomeD)
    then show ?thesis by (auto simp: runEntries_def)
  qed
  ultimately show ?thesis by blast
qed

lemma lookup_fold_runs:
  assumes "map_of (fold addToReplaceMap runs m) k = Some v"
  shows "(\<exists>run \<in> set runs. run \<noteq> [] \<and> k \<in> endNodeElementId ` set run
                            \<and> v = startNodeElementId (hd run))
         \<or> map_of m k = Some v"
  using assms
proof (induction runs arbitrary: m)
  case Nil
  then show ?case by simp
next
  case (Cons run runs)
  from Cons.IH [of "addToReplaceMap run m"] Cons.prems
  consider "\<exists>run \<in> set runs. run \<noteq> [] \<and> k \<in> endNodeElementId ` set run
                            \<and> v = startNodeElementId (hd run)"
    | "map_of (addToReplaceMap run m) k = Some v"
    by auto
  then show ?case
  proof cases
    case 1
    then show ?thesis by auto
  next
    case 2
    from lookup_addToReplaceMap [OF 2] show ?thesis by auto
  qed
qed

text \<open>
  C3 (amended). For every record list and cutoff the abstraction map is a valid partial
  function: no id is a key twice. Applying it twice equals applying it once whenever the
  replacement node of every deleted run is the end node of a deleted edge only in runs with
  that same replacement node.
\<close>

theorem getAbstractionMap_partial_function:
  "distinct (map fst (fst (getAbstractionMap records d)))
   \<and> (replacementsApart (concat (map (deletedRuns d) records)) \<longrightarrow>
        (\<forall>x. applyMap (fst (getAbstractionMap records d)) (applyMap (fst (getAbstractionMap records d)) x)
              = applyMap (fst (getAbstractionMap records d)) x))"
proof (intro conjI impI allI)
  define runs where "runs = concat (map (deletedRuns d) records)"
  define m where "m = fst (getAbstractionMap records d)"
  have m: "m = fold addToReplaceMap runs []"
    by (simp add: m_def runs_def getAbstractionMap_def abstractRecords_runs)
  show "distinct (map fst (fst (getAbstractionMap records d)))"
    unfolding m_def [symmetric] m by (rule distinct_fold_runs) simp
  fix x
  assume apart: "replacementsApart (concat (map (deletedRuns d) records))"
  show "applyMap (fst (getAbstractionMap records d)) (applyMap (fst (getAbstractionMap records d)) x)
              = applyMap (fst (getAbstractionMap records d)) x"
    unfolding m_def [symmetric]
  proof (cases "map_of m x")
    case None
    then show "applyMap m (applyMap m x) = applyMap m x" by (simp add: applyMap_def)
  next
    case (Some v)
    then obtain run where run: "run \<in> set runs" "run \<noteq> []" "v = startNodeElementId (hd run)"
      using lookup_fold_runs [of runs "[]" x v] m by auto
    have "applyMap m v = v"
    proof (cases "map_of m v")
      case None
      then show ?thesis by (simp add: applyMap_def)
    next
      case (Some w)
      then obtain run' where run': "run' \<in> set runs" "v \<in> endNodeElementId ` set run'"
          "w = startNodeElementId (hd run')"
        using lookup_fold_runs [of runs "[]" v w] m by auto
      with run apart have "w = v"
        unfolding replacementsApart_def runs_def [symmetric] by blast
      with Some show ?thesis by (simp add: applyMap_def)
    qed
    with Some show "applyMap m (applyMap m x) = applyMap m x" by (simp add: applyMap_def)
  qed
qed

lemmas abstraction_eval =
  getAbstractionMap_def abstractRecord_def sourceDepth_def targetDepth_def splice_def
  addToReplaceMap_def rel_def Let_def

text \<open>
  C2 (as stated, refuted). The claim deletes from the trailing chunk its own excess beyond the
  cutoff. Here the cutoff is 1, the leading chunk has two edges and the trailing chunk one, so
  the trailing chunk has no excess and the rule as stated gives no entry for \<open>Q\<close>; the code
  deletes the one trailing edge, since the leading chunk has one edge in excess, and maps \<open>Q\<close>
  to \<open>P\<close>.
\<close>

theorem getAbstractionMap_trailing_counterexample:
  "int (length (containTargetEdges shortTrail)) \<le> 1
   \<and> fst (getAbstractionMap [shortTrail] 1) = [(''C'', ''B''), (''Q'', ''P'')]
   \<and> map_of (rev (statedEntries 1 shortTrail)) ''Q'' = None"
  by (simp add: shortTrail_def abstraction_eval statedEntries_def runEntries_def)

theorem getAbstractionMap_rule_witness:
  "list_all (fitsTrailing 1) [deepRecord]
   \<and> map_of (fst (getAbstractionMap [deepRecord] 1))
       = map_of [(''M2'', ''L''), (''K'', ''L''), (''M'', ''A''), (''B'', ''A'')]
   \<and> containmentChunk (containSourceEdges deepRecord)
   \<and> containmentChunk (containTargetEdges deepRecord)
   \<and> abstractChunks 1 False
        [containSourceEdges deepRecord, dependencyEdges deepRecord, containTargetEdges deepRecord] []
       = Inr ([(''B'', ''A''), (''M'', ''A''), (''K'', ''L''), (''M2'', ''L'')],
              [[rel ''c1'' ''S'' ''A'' ''CONTAINS''], [rel ''d1'' ''M'' ''M2'' ''CALLS''],
               [rel ''t1'' ''D'' ''L'' ''CONTAINS'']])
   \<and> abstractChunks 1 True
        [containSourceEdges deepRecord, dependencyEdges deepRecord, containTargetEdges deepRecord] []
       = Inr ([(''B'', ''A''), (''M'', ''A''), (''K'', ''L''), (''M2'', ''L'')],
              [[rel ''c1'' ''S'' ''A'' ''CONTAINS''], [rel ''d1'' ''M'' ''M2'' ''CALLS''],
               [rel ''t1'' ''D'' ''L'' ''CONTAINS'']])"
  using getAbstractionMap_rule [of 1 "[deepRecord]" "containSourceEdges deepRecord"
      "containTargetEdges deepRecord" "[dependencyEdges deepRecord]" "[]"]
  by (simp add: deepRecord_def fitsTrailing_def excess_def containmentChunk_def toLowerCase_def
      lowerChar_def ruleEntries_def runEntries_def leadingRun_def trailingRun_def
      addToReplaceMap_def rel_def)

text \<open>
  C3 (as stated, refuted). Two records of one selected node, cutoff 1: the first has two
  leading edges in excess and maps \<open>L\<close> to \<open>D\<close> and \<open>M2\<close> to \<open>D\<close>; the second has one in excess and
  overwrites \<open>M2\<close> with \<open>L\<close>. The map sends \<open>M2\<close> to \<open>L\<close> and \<open>L\<close> to \<open>D\<close>: applying it twice
  differs from applying it once.
\<close>

theorem getAbstractionMap_idempotence_counterexample:
  "fst (getAbstractionMap twoDepths 1)
     = [(''B'', ''A''), (''M'', ''A''), (''L'', ''D''), (''M2'', ''L''), (''N'', ''A'')]
   \<and> applyMap (fst (getAbstractionMap twoDepths 1)) ''M2'' = ''L''
   \<and> applyMap (fst (getAbstractionMap twoDepths 1))
        (applyMap (fst (getAbstractionMap twoDepths 1)) ''M2'') = ''D''"
  by code_simp

theorem getAbstractionMap_partial_function_witness:
  "replacementsApart (concat (map (deletedRuns 1) [deepRecord]))
   \<and> (\<forall>x. applyMap (fst (getAbstractionMap [deepRecord] 1))
             (applyMap (fst (getAbstractionMap [deepRecord] 1)) x)
           = applyMap (fst (getAbstractionMap [deepRecord] 1)) x)"
proof -
  have "replacementsApart (concat (map (deletedRuns 1) [deepRecord]))"
    by (simp add: replacementsApart_def deletedRuns_def deepRecord_def sourceDepth_def
        targetDepth_def splice_def rel_def Let_def)
  with getAbstractionMap_partial_function [of "[deepRecord]" 1] show ?thesis
    by blast
qed

section \<open>Cycle projection\<close>

lemma filter_indexed:
  "map fst (filter (\<lambda>(e, i). Q e) (zip xs [k ..< k + length xs])) = filter Q xs"
proof (induction xs arbitrary: k)
  case Nil
  then show ?case by simp
next
  case (Cons x xs)
  have "[k ..< k + length (x # xs)] = k # [Suc k ..< Suc k + length xs]"
    by (simp add: upt_conv_Cons del: upt_Suc)
  with Cons.IH [of "Suc k"] show ?case
    by (simp del: upt_Suc)
qed

lemma filter_index_zero:
  "map fst (filter (\<lambda>(e, i). i = 0 \<or> Q e) (zip xs [Suc k ..< Suc k + length xs])) = filter Q xs"
proof (induction xs arbitrary: k)
  case Nil
  then show ?case by simp
next
  case (Cons x xs)
  have "[Suc k ..< Suc k + length (x # xs)] = Suc k # [Suc (Suc k) ..< Suc (Suc k) + length xs]"
    by (simp add: upt_conv_Cons del: upt_Suc)
  with Cons.IH [of "Suc k"] show ?case
    by (simp del: upt_Suc)
qed

lemma collapse_all_self:
  assumes "newPath \<noteq> []" "list_all (\<lambda>e. source e = target e) newPath"
  shows "collapseSelfEdges newPath = [hd newPath]"
proof -
  from assms(1) obtain x xs where x: "newPath = x # xs" by (cases newPath) auto
  have none: "filter (\<lambda>e. source e \<noteq> target e) xs = []"
    using assms(2) x by (simp add: list_all_iff filter_empty_conv)
  have "collapseSelfEdges newPath
      = map fst (filter (\<lambda>(e, i). i = 0 \<or> source e \<noteq> target e) (zip newPath [0 ..< length newPath]))"
    unfolding collapseSelfEdges_def using assms(2)
    by (intro arg_cong [where f = "map fst"] filter_cong) auto
  also have "\<dots> = x # map fst (filter (\<lambda>(e, i). i = 0 \<or> source e \<noteq> target e)
                                 (zip xs [Suc 0 ..< Suc 0 + length xs]))"
    by (simp add: x upt_conv_Cons del: upt_Suc)
  also have "\<dots> = [x]"
    by (simp only: filter_index_zero none)
  finally show ?thesis by (simp add: x)
qed

lemma collapse_mixed:
  assumes "\<not> list_all (\<lambda>e. source e = target e) newPath"
  shows "collapseSelfEdges newPath = filter (\<lambda>e. source e \<noteq> target e) newPath"
proof -
  have "collapseSelfEdges newPath
      = map fst (filter (\<lambda>(e, i). source e \<noteq> target e) (zip newPath [0 ..< 0 + length newPath]))"
    unfolding collapseSelfEdges_def using assms
    by (intro arg_cong [where f = "map fst"] filter_cong) auto
  then show ?thesis by (simp only: filter_indexed)
qed

lemma length_abstractPath: "length (fst (abstractPath nodeSet dependencies p)) = length p"
  by (induction p arbitrary: dependencies) (simp_all add: split_beta)

lemma abstractCycle_result:
  "abstractCycle nodeSet dependencies dep =
     (if path dep = [] then Inl TypeError
      else Inr (DependencyCycle.extend dep (DependencyCycleRender.fields [dep] (cycleIndex dep))
                  \<lparr>path := collapseSelfEdges (rewritePath nodeSet dependencies (path dep)),
                   node := sourceNode (hd (rewritePath nodeSet dependencies (path dep)))\<rparr>,
                snd (abstractPath nodeSet dependencies (path dep))))"
proof (cases "fst (abstractPath nodeSet dependencies (path dep))")
  case Nil
  then have "path dep = []"
    using length_abstractPath [of nodeSet dependencies "path dep"] by simp
  with Nil show ?thesis
    by (simp add: abstractCycle_def split_beta)
next
  case (Cons first rest)
  then have "path dep \<noteq> []"
    using length_abstractPath [of nodeSet dependencies "path dep"] by auto
  with Cons show ?thesis
    by (simp add: abstractCycle_def split_beta rewritePath_def)
qed

text \<open>
  One cycle through the callback of \<open>map\<close>: an empty path throws; otherwise the path of the
  rendered cycle is the first step alone when every rewritten step is a self-edge, and the
  steps that are no self-edges when some step is none.
\<close>

lemma abstractCycle_collapse:
  "(path dep = [] \<longrightarrow> abstractCycle nodeSet dependencies dep = Inl TypeError)
   \<and> (path dep \<noteq> [] \<longrightarrow>
        (\<exists>newDep dependencies1.
           abstractCycle nodeSet dependencies dep = Inr (newDep, dependencies1)
           \<and> (list_all isSelfEdge (rewritePath nodeSet dependencies (path dep)) \<longrightarrow>
                path newDep = [hd (rewritePath nodeSet dependencies (path dep))]
                \<and> length (filter isSelfEdge (path newDep)) = 1)
           \<and> (\<not> list_all isSelfEdge (rewritePath nodeSet dependencies (path dep)) \<longrightarrow>
                path newDep = filter (\<lambda>e. \<not> isSelfEdge e) (rewritePath nodeSet dependencies (path dep))
                \<and> filter isSelfEdge (path newDep) = [])))"
proof (intro conjI impI)
  assume "path dep = []"
  then show "abstractCycle nodeSet dependencies dep = Inl TypeError"
    by (simp add: abstractCycle_result)
next
  assume ne: "path dep \<noteq> []"
  define newPath where "newPath = rewritePath nodeSet dependencies (path dep)"
  have np: "newPath \<noteq> []"
    using ne length_abstractPath [of nodeSet dependencies "path dep"]
    by (auto simp: newPath_def rewritePath_def)
  define newDep where "newDep =
    DependencyCycle.extend dep (DependencyCycleRender.fields [dep] (cycleIndex dep))
      \<lparr>path := collapseSelfEdges newPath, node := sourceNode (hd newPath)\<rparr>"
  have r: "abstractCycle nodeSet dependencies dep
      = Inr (newDep, snd (abstractPath nodeSet dependencies (path dep)))"
    using ne by (simp add: abstractCycle_result newDep_def newPath_def)
  have p: "path newDep = collapseSelfEdges newPath"
    by (simp add: newDep_def)
  have all: "path newDep = [hd newPath] \<and> length (filter isSelfEdge (path newDep)) = 1"
    if a: "list_all isSelfEdge newPath"
  proof -
    from a have a': "list_all (\<lambda>e. source e = target e) newPath"
      by (simp add: isSelfEdge_def [abs_def])
    have "isSelfEdge (hd newPath)" using a np by (cases newPath) auto
    then show ?thesis by (simp add: p collapse_all_self [OF np a'])
  qed
  have mixed: "path newDep = filter (\<lambda>e. \<not> isSelfEdge e) newPath
        \<and> filter isSelfEdge (path newDep) = []"
    if a: "\<not> list_all isSelfEdge newPath"
  proof -
    from a have a': "\<not> list_all (\<lambda>e. source e = target e) newPath"
      by (simp add: isSelfEdge_def [abs_def])
    show ?thesis
      by (simp add: p collapse_mixed [OF a'] isSelfEdge_def [abs_def] filter_empty_conv)
  qed
  show "\<exists>newDep dependencies1.
           abstractCycle nodeSet dependencies dep = Inr (newDep, dependencies1)
           \<and> (list_all isSelfEdge (rewritePath nodeSet dependencies (path dep)) \<longrightarrow>
                path newDep = [hd (rewritePath nodeSet dependencies (path dep))]
                \<and> length (filter isSelfEdge (path newDep)) = 1)
           \<and> (\<not> list_all isSelfEdge (rewritePath nodeSet dependencies (path dep)) \<longrightarrow>
                path newDep = filter (\<lambda>e. \<not> isSelfEdge e) (rewritePath nodeSet dependencies (path dep))
                \<and> filter isSelfEdge (path newDep) = [])"
    using r all mixed unfolding newPath_def by blast
qed


text \<open>
  C5 (the code at the failing input). The cycle edge \<open>r1\<close> matches the rendered edge \<open>r1\<close> from
  \<open>A\<close> to \<open>B\<close>. The output step has the rendered id, source \<open>A\<close> and target \<open>B\<close>, and the node
  data of \<open>A\<close> as its source node; its target node is the node data of \<open>A\<close> as well, not of the
  rendered target \<open>B\<close>.
\<close>

theorem abstractCycleEdge_target_node_is_start_node:
  "fst (abstractCycleEdge [] renderedAB (cycleEdge ''r1'' ''X'' ''Y''))
     = \<lparr>id_edge = ''r1'', source = ''A'', target = ''B'', interaction = ''calls'', weight = 1,
        sourceNode = toNodeData (moduleNode ''A'' None),
        targetNode = toNodeData (moduleNode ''A'' None)\<rparr>
   \<and> id_node (targetNode (fst (abstractCycleEdge [] renderedAB (cycleEdge ''r1'' ''X'' ''Y'')))) = ''A''
   \<and> target (fst (abstractCycleEdge [] renderedAB (cycleEdge ''r1'' ''X'' ''Y''))) = ''B''
   \<and> id_node (toNodeData (endNode (snd (hd renderedAB)))) = ''B''"
  by (simp add: abstractCycleEdge_def getOriginal_def renderedAB_def cycleEdge_def toNodeData_def
      moduleNode_def)

lemma map_of_unmarked:
  "map_of (unmarked d) k = map_option (\<lambda>e. e\<lparr>dependencyCycle := False\<rparr>) (map_of d k)"
  by (induction d) (auto simp: unmarked_def)

lemma keys_unmarked: "map fst (unmarked d) = map fst d"
  by (induction d) (auto simp: unmarked_def)

lemma has_unmarked: "unmarked d1 = unmarked d2 \<Longrightarrow> has d1 k = has d2 k"
  using keys_unmarked [of d1] keys_unmarked [of d2] by (simp add: has_def keys_def)

lemma unmarked_update:
  "map_of d k = Some x \<Longrightarrow> unmarked (AList.update k (x\<lparr>dependencyCycle := b\<rparr>) d) = unmarked d"
  by (induction d) (auto simp: unmarked_def)

lemma unmarked_fields:
  assumes "x1\<lparr>dependencyCycle := False\<rparr> = x2\<lparr>dependencyCycle := False\<rparr>"
  shows "elementId_dep x1 = elementId_dep x2" "startNode x1 = startNode x2" "endNode x1 = endNode x2"
proof -
  from assms have "elementId_dep (x1\<lparr>dependencyCycle := False\<rparr>) = elementId_dep (x2\<lparr>dependencyCycle := False\<rparr>)"
    and "startNode (x1\<lparr>dependencyCycle := False\<rparr>) = startNode (x2\<lparr>dependencyCycle := False\<rparr>)"
    and "endNode (x1\<lparr>dependencyCycle := False\<rparr>) = endNode (x2\<lparr>dependencyCycle := False\<rparr>)"
    by simp_all
  then show "elementId_dep x1 = elementId_dep x2" "startNode x1 = startNode x2" "endNode x1 = endNode x2"
    by simp_all
qed

lemma abstractCycleEdge_keeps: "unmarked (snd (abstractCycleEdge nodeSet d e)) = unmarked d"
  by (cases "map_of d (id_edge e)")
    (simp_all add: abstractCycleEdge_def getOriginal_def Let_def unmarked_update)

lemma abstractCycleEdge_unmarked:
  assumes "unmarked d1 = unmarked d2"
  shows "fst (abstractCycleEdge nodeSet d1 e) = fst (abstractCycleEdge nodeSet d2 e)"
proof -
  from assms have eq: "map_option (\<lambda>e. e\<lparr>dependencyCycle := False\<rparr>) (map_of d1 (id_edge e))
      = map_option (\<lambda>e. e\<lparr>dependencyCycle := False\<rparr>) (map_of d2 (id_edge e))"
    using map_of_unmarked [of d1 "id_edge e"] map_of_unmarked [of d2 "id_edge e"] by simp
  show ?thesis
  proof (cases "map_of d1 (id_edge e)")
    case None
    with eq have "map_of d2 (id_edge e) = None" by simp
    with None show ?thesis
      by (simp add: abstractCycleEdge_def getOriginal_def Let_def)
  next
    case (Some x1)
    with eq obtain x2 where x2: "map_of d2 (id_edge e) = Some x2"
      "x1\<lparr>dependencyCycle := False\<rparr> = x2\<lparr>dependencyCycle := False\<rparr>"
      by (cases "map_of d2 (id_edge e)") auto
    from unmarked_fields [OF x2(2)] Some x2(1) show ?thesis
      by (simp add: abstractCycleEdge_def getOriginal_def Let_def)
  qed
qed

lemma abstractPath_keeps: "unmarked (snd (abstractPath nodeSet d p)) = unmarked d"
  by (induction p arbitrary: d) (simp_all add: split_beta abstractCycleEdge_keeps)

lemma abstractPath_unmarked:
  "unmarked d1 = unmarked d2 \<Longrightarrow> fst (abstractPath nodeSet d1 p) = fst (abstractPath nodeSet d2 p)"
proof (induction p arbitrary: d1 d2)
  case Nil
  then show ?case by simp
next
  case (Cons e p)
  have "unmarked (snd (abstractCycleEdge nodeSet d1 e)) = unmarked (snd (abstractCycleEdge nodeSet d2 e))"
    using Cons.prems by (simp add: abstractCycleEdge_keeps)
  from Cons.IH [OF this] abstractCycleEdge_unmarked [OF Cons.prems, of nodeSet e]
  show ?case by (simp add: split_beta)
qed

lemma abstractCycles_projection:
  assumes "list_all (\<lambda>c. path c \<noteq> []) cycles" "unmarked d' = unmarked d"
  shows "\<exists>d1. abstractCycles nodeSet d' cycles = Inr (map (projectCycle nodeSet d) cycles, d1)
              \<and> unmarked d1 = unmarked d"
  using assms
proof (induction cycles arbitrary: d')
  case Nil
  then show ?case by simp
next
  case (Cons c cycles)
  have c: "path c \<noteq> []" using Cons.prems(1) by simp
  have r: "rewritePath nodeSet d' (path c) = rewritePath nodeSet d (path c)"
    unfolding rewritePath_def by (rule abstractPath_unmarked [OF Cons.prems(2)])
  define d2 where "d2 = snd (abstractPath nodeSet d' (path c))"
  have step: "abstractCycle nodeSet d' c = Inr (projectCycle nodeSet d c, d2)"
    using c by (simp add: abstractCycle_result projectCycle_def r d2_def)
  have "unmarked d2 = unmarked d"
    unfolding d2_def using Cons.prems(2) by (simp add: abstractPath_keeps)
  with Cons.IH [of d2] Cons.prems(1) obtain d1 where
    "abstractCycles nodeSet d2 cycles = Inr (map (projectCycle nodeSet d) cycles, d1)"
    "unmarked d1 = unmarked d"
    by auto
  with step show ?case by simp
qed

lemma actualCycles_mergeCycle:
  "set (concat (map actualCycles (mergeCycle vs d)))
     = set (concat (map actualCycles vs)) \<union> set (actualCycles d)"
proof (cases "findIndex (\<lambda>d1. id_cycle d1 = id_cycle d) vs")
  case None
  then show ?thesis by (simp add: mergeCycle_def)
next
  case (Some i)
  from findIndex_Some [OF Some] have i: "i < length vs" by simp
  define y where "y = (vs ! i)\<lparr>actualCycles := actualCycles (vs ! i) @ actualCycles d\<rparr>"
  define A where "A = take i vs"
  define B where "B = drop (Suc i) vs"
  have u: "vs[i := y] = A @ y # B"
    unfolding A_def B_def using i by (rule upd_conv_take_nth_drop)
  have v: "vs = A @ vs ! i # B"
    unfolding A_def B_def using i by (rule id_take_nth_drop)
  have "set (concat (map actualCycles (A @ y # B)))
      = set (concat (map actualCycles (A @ vs ! i # B))) \<union> set (actualCycles d)"
    by (auto simp: y_def)
  then have "set (concat (map actualCycles (vs[i := y])))
      = set (concat (map actualCycles vs)) \<union> set (actualCycles d)"
    using u v by simp
  with Some show ?thesis by (simp add: mergeCycle_def y_def)
qed

lemma shownCycles_mergeCycle: "shownCycles (mergeCycle vs d) = shownCycles vs \<union> set (actualCycles d)"
  unfolding shownCycles_def by (rule actualCycles_mergeCycle)

lemma shownCycles_Cons: "shownCycles (d # ds) = set (actualCycles d) \<union> shownCycles ds"
  by (simp add: shownCycles_def)

lemma shownCycles_foldl:
  "shownCycles (foldl mergeCycle vs ds) = shownCycles vs \<union> shownCycles ds"
proof (induction ds arbitrary: vs)
  case Nil
  then show ?case by (simp add: shownCycles_def)
next
  case (Cons d ds)
  from Cons.IH [of "mergeCycle vs d"] show ?case
    by (simp add: shownCycles_mergeCycle shownCycles_Cons Un_assoc)
qed

lemma actualCycles_projectCycle: "actualCycles (projectCycle nodeSet d c) = [c]"
  by (simp add: projectCycle_def DependencyCycle.extend_def DependencyCycleRender.fields_def)

lemma path_projectCycle:
  "path (projectCycle nodeSet d c) = collapseSelfEdges (rewritePath nodeSet d (path c))"
  by (simp add: projectCycle_def)

lemma realized_projectCycle:
  assumes "unmarked d1 = unmarked d"
  shows "realized d1 (projectCycle nodeSet d c) = realizedCycle nodeSet d c"
  using has_unmarked [OF assms]
  by (simp add: realized_def realizedCycle_def path_projectCycle)







text \<open>
  C7 (amended). When no cycle has an empty path the projector returns, and a cycle is shown in
  the output (among the actual cycles of an entry) if and only if at least one edge of its path
  after rewriting and self-edge collapse has the id of an edge in the rendered dependencies;
  the other cycles are dropped.
\<close>

theorem cycle_appears_iff_collapsed_path_matches:
  assumes "list_all (\<lambda>c. path c \<noteq> []) cycles"
  shows "\<exists>out dependencies1.
           extractAndAbstractDependencyCycles cycles dependencies nodeSet = Inr (out, dependencies1)
           \<and> shownCycles out = {c \<in> set cycles. realizedCycle nodeSet dependencies c}"
proof -
  from abstractCycles_projection [OF assms, of dependencies dependencies nodeSet]
  obtain d1 where d1:
    "abstractCycles nodeSet dependencies cycles
       = Inr (map (projectCycle nodeSet dependencies) cycles, d1)"
    "unmarked d1 = unmarked dependencies"
    by auto
  define kept where "kept = filter (realized d1) (map (projectCycle nodeSet dependencies) cycles)"
  define out where "out = foldl mergeCycle [] (map (\<lambda>d. d\<lparr>id_cycle := cycleIndex d\<rparr>) kept)"
  have r: "extractAndAbstractDependencyCycles cycles dependencies nodeSet = Inr (out, d1)"
    by (simp add: extractAndAbstractDependencyCycles_def d1(1) out_def kept_def)
  have "shownCycles out = shownCycles (map (\<lambda>d. d\<lparr>id_cycle := cycleIndex d\<rparr>) kept)"
    unfolding out_def shownCycles_foldl by (simp add: shownCycles_def)
  also have "\<dots> = shownCycles kept"
    by (simp add: shownCycles_def comp_def)
  also have "\<dots> = {c \<in> set cycles. realizedCycle nodeSet dependencies c}"
    unfolding kept_def shownCycles_def
    by (auto simp: actualCycles_projectCycle realized_projectCycle [OF d1(2)])
  finally show ?thesis using r by blast
qed

text \<open>
  C7 (as stated, refuted). The first edge of the cycle is rewritten to the rendered edge \<open>r1\<close>,
  a self-edge, so a rewritten edge of the cycle matches the rendered graph by id. The second
  rewritten edge is no self-edge, so the collapse removes the first; what is left has no match
  and the cycle is dropped: the output is empty.
\<close>

theorem cycle_with_collapsed_match_counterexample:
  "rewritePath [] renderedAA (path hiddenMatch)
     = [cycleEdge ''r1'' ''A'' ''A'', cycleEdge ''r2'' ''Y'' ''X'']
   \<and> has renderedAA (id_edge (cycleEdge ''r1'' ''A'' ''A''))
   \<and> extractAndAbstractDependencyCycles [hiddenMatch] renderedAA []
       = Inr ([], [(''r1'', \<lparr>elementId_dep = ''r1'', startNode = moduleNode ''A'' None,
                              endNode = moduleNode ''A'' None, dependencyCycle = True\<rparr>)])"
  by code_simp

theorem cycle_appears_iff_collapsed_path_matches_witness:
  "list_all (\<lambda>c. path c \<noteq> []) [scenarioC, hiddenMatch]
   \<and> realizedCycle liftedNodes renderedAA scenarioC
   \<and> \<not> realizedCycle liftedNodes renderedAA hiddenMatch
   \<and> (\<exists>out dependencies1.
         extractAndAbstractDependencyCycles [scenarioC, hiddenMatch] renderedAA liftedNodes
           = Inr (out, dependencies1)
         \<and> shownCycles out = {scenarioC})"
proof -
  have p: "list_all (\<lambda>c. path c \<noteq> []) [scenarioC, hiddenMatch]"
    by (simp add: scenarioC_def hiddenMatch_def)
  have a: "realizedCycle liftedNodes renderedAA scenarioC"
    by code_simp
  have b: "\<not> realizedCycle liftedNodes renderedAA hiddenMatch"
    by code_simp
  from cycle_appears_iff_collapsed_path_matches [OF p, of renderedAA liftedNodes] a b
  show ?thesis
    using p by auto
qed

section \<open>Order of the records\<close>

lemma mergedEdges_abstracted:
  "mergedEdges original options
     = mergeDuplicateEdges (getAllEdges (abstractedRecords options (records_of original)))"
  by (simp add: mergedEdges_def abstractedRecords_def)

lemma snd_abstractRecord: "snd (abstractRecord d r m) = snd (abstractRecord d r [])"
  by (simp add: abstractRecord_def Let_def split_beta)

lemma snd_abstractRecords:
  "snd (abstractRecords d rs m) = map (\<lambda>r. snd (abstractRecord d r [])) rs"
proof (induction rs arbitrary: m)
  case Nil
  then show ?case by simp
next
  case (Cons r rs)
  from Cons.IH [of "fst (abstractRecord d r m)"] snd_abstractRecord [of d r m]
  show ?case by (simp add: split_beta)
qed

lemma abstractEdge_cong: "map_of m = map_of m' \<Longrightarrow> abstractEdge m = abstractEdge m'"
  by (rule ext) (simp add: abstractEdge_def applyMap_def)

lemma dom_addToReplaceMap:
  "dom (map_of (addToReplaceMap run m)) = dom (map_of m) \<union> endNodeElementId ` set run"
  unfolding map_of_addToReplaceMap
  by (auto simp: dom_map_of_conv_image_fst runEntries_def image_image)

lemma dom_fold_runs:
  "dom (map_of (fold addToReplaceMap runs m))
     = dom (map_of m) \<union> (\<Union>run \<in> set runs. endNodeElementId ` set run)"
  by (induction runs arbitrary: m) (auto simp: dom_addToReplaceMap)

lemma lookup_consistent:
  assumes "consistentRuns runs"
  shows "map_of (fold addToReplaceMap runs []) k = Some v
         \<longleftrightarrow> (\<exists>run \<in> set runs. k \<in> endNodeElementId ` set run \<and> v = startNodeElementId (hd run))"
proof
  assume "map_of (fold addToReplaceMap runs []) k = Some v"
  from lookup_fold_runs [OF this]
  show "\<exists>run \<in> set runs. k \<in> endNodeElementId ` set run \<and> v = startNodeElementId (hd run)"
    by auto
next
  assume "\<exists>run \<in> set runs. k \<in> endNodeElementId ` set run \<and> v = startNodeElementId (hd run)"
  then obtain run where run: "run \<in> set runs" "k \<in> endNodeElementId ` set run"
      "v = startNodeElementId (hd run)"
    by blast
  then have "k \<in> dom (map_of (fold addToReplaceMap runs []))"
    unfolding dom_fold_runs by blast
  then obtain w where w: "map_of (fold addToReplaceMap runs []) k = Some w" by blast
  from lookup_fold_runs [OF w] obtain run' where
    "run' \<in> set runs" "k \<in> endNodeElementId ` set run'" "w = startNodeElementId (hd run')"
    by auto
  with run assms have "w = v"
    unfolding consistentRuns_def by blast
  with w show "map_of (fold addToReplaceMap runs []) k = Some v" by simp
qed

lemma lookup_same_runs:
  assumes "consistentRuns runs" "set runs' = set runs"
  shows "map_of (fold addToReplaceMap runs' []) = map_of (fold addToReplaceMap runs [])"
proof (rule ext)
  fix k
  have c': "consistentRuns runs'"
    using assms by (simp add: consistentRuns_def)
  show "map_of (fold addToReplaceMap runs' []) k = map_of (fold addToReplaceMap runs []) k"
  proof (cases "map_of (fold addToReplaceMap runs []) k")
    case None
    then have "\<not> (\<exists>v. map_of (fold addToReplaceMap runs' []) k = Some v)"
      using lookup_consistent [OF assms(1), of k] lookup_consistent [OF c', of k] assms(2)
      by (metis option.distinct(1))
    with None show ?thesis by simp
  next
    case (Some v)
    then show ?thesis
      using lookup_consistent [OF assms(1), of k v] lookup_consistent [OF c', of k v] assms(2)
      by simp
  qed
qed

lemma set_abstractedRecords:
  assumes "set records' = set records" "consistentMap options records"
  shows "set (abstractedRecords options records') = set (abstractedRecords options records)"
proof (cases "maxDepth options")
  case None
  with assms(1) show ?thesis by (simp add: abstractedRecords_def)
next
  case (Some d)
  define runs where "runs = concat (map (deletedRuns d) records)"
  define runs' where "runs' = concat (map (deletedRuns d) records')"
  have "set runs' = set runs"
    unfolding runs_def runs'_def using assms(1) by simp
  moreover have "consistentRuns runs"
    using assms(2) Some by (simp add: consistentMap_def runs_def)
  ultimately have m: "map_of (fold addToReplaceMap runs' []) = map_of (fold addToReplaceMap runs [])"
    by (rule lookup_same_runs [rotated])
  have shape: "abstractedRecords options rs
      = map (\<lambda>r. (snd (abstractRecord d r []))
                   \<lparr>dependencyEdges :=
                      map (abstractEdge (fold addToReplaceMap (concat (map (deletedRuns d) rs)) []))
                        (dependencyEdges (snd (abstractRecord d r [])))\<rparr>) rs" for rs
    by (simp add: abstractedRecords_def Some getAbstractionMap_def split_beta applyAbstraction_def
        snd_abstractRecords abstractRecords_runs comp_def)
  show ?thesis
    unfolding shape runs_def [symmetric] runs'_def [symmetric] abstractEdge_cong [OF m]
    using assms(1) by simp
qed

lemma collectEdges_unique:
  assumes "uniqueById rs"
  shows "set (collectEdges seen rs) = toEdgeData ` {r \<in> set rs. elementId r \<notin> set seen}"
  using assms
proof (induction seen rs rule: collectEdges.induct)
  case (1 seen)
  then show ?case by simp
next
  case (2 seen r rs)
  have u: "uniqueById rs"
    using "2.prems" by (simp add: uniqueById_def)
  have same: "r' = r" if "r' \<in> set rs" "elementId r' = elementId r" for r'
    using "2.prems" that by (simp add: uniqueById_def)
  show ?case
  proof (cases "elementId r \<in> set seen")
    case True
    with "2.IH"(1) u show ?thesis by auto
  next
    case False
    with "2.IH"(2) u
    have "set (collectEdges (seen @ [elementId r]) rs)
        = toEdgeData ` {r' \<in> set rs. elementId r' \<notin> set seen \<and> elementId r' \<noteq> elementId r}"
      by auto
    with False same show ?thesis by auto
  qed
qed

lemma collectEdges_unique_all:
  "uniqueById rs \<Longrightarrow> set (collectEdges [] rs) = toEdgeData ` set rs"
  using collectEdges_unique [of rs "[]"] by simp

lemma set_getAllEdges:
  assumes "uniqueById (concat (map allEdges records))"
  shows "set (getAllEdges records) = toEdgeData ` set (concat (map allEdges records))"
  unfolding getAllEdges_def by (rule collectEdges_unique_all [OF assms])

lemma distinct_getAllEdges: "distinct (getAllEdges records)"
  using collectEdges_distinct [of "[]" "concat (map allEdges records)"]
  by (simp add: getAllEdges_def distinct_map)

lemma unit_getAllEdges: "\<forall>e \<in> set (getAllEdges records). weight e = 1"
  by (auto simp: getAllEdges_def dest: collectEdges_weight)

lemma weight_merged:
  assumes "distinct xs" "\<forall>x \<in> set xs. weight x = 1" "e \<in> set (mergeDuplicateEdges xs)"
  shows "weight e = int (card {x \<in> set xs. endpoints x = endpoints e})"
proof -
  have d: "distinct (map endpoints (mergeDuplicateEdges xs))"
    unfolding mergeDuplicateEdges_def by (rule distinct_endpoints_foldl) simp
  have "weight e = pairWeight (endpoints e) (mergeDuplicateEdges xs)"
    using pairWeight_distinct [OF d assms(3)] by simp
  also have "\<dots> = pairWeight (endpoints e) [] + pairWeight (endpoints e) xs"
    unfolding mergeDuplicateEdges_def by (rule pairWeight_foldl)
  also have "\<dots> = pairWeight (endpoints e) xs"
    by (simp add: pairWeight_def)
  also have "\<dots> = int (length (filter (\<lambda>x. endpoints x = endpoints e) xs))"
    by (rule pairWeight_unit [OF assms(2)])
  also have "length (filter (\<lambda>x. endpoints x = endpoints e) xs)
      = card (set (filter (\<lambda>x. endpoints x = endpoints e) xs))"
    using distinct_card [OF distinct_filter [OF assms(1), of "\<lambda>x. endpoints x = endpoints e"]]
    by simp
  finally show ?thesis by simp
qed

lemma merged_origin:
  "e \<in> set (foldl mergeEdge acc xs) \<Longrightarrow>
   \<exists>x \<in> set acc \<union> set xs. endpoints x = endpoints e \<and> interaction x = interaction e"
proof (induction xs arbitrary: acc)
  case Nil
  then show ?case by auto
next
  case (Cons a xs)
  from Cons.IH [OF Cons.prems [simplified]]
  obtain x where x: "x \<in> set (mergeEdge acc a) \<union> set xs" "endpoints x = endpoints e"
      "interaction x = interaction e"
    by blast
  show ?case
  proof (cases "x \<in> set xs")
    case True
    with x show ?thesis by auto
  next
    case False
    with x have m: "x \<in> set (mergeEdge acc a)" by simp
    show ?thesis
    proof (cases "findIndex (\<lambda>e. source e = source a \<and> target e = target a) acc")
      case None
      with m x show ?thesis by (auto simp: mergeEdge_def)
    next
      case (Some i)
      from findIndex_Some [OF Some] have i: "i < length acc" by simp
      from m Some have "x \<in> set (acc[i := (acc ! i)\<lparr>weight := weight (acc ! i) + weight a\<rparr>])"
        by (simp add: mergeEdge_def)
      then have "x \<in> set acc \<or> x = (acc ! i)\<lparr>weight := weight (acc ! i) + weight a\<rparr>"
        using set_update_subset_insert [of acc i] by blast
      then show ?thesis
      proof
        assume "x \<in> set acc"
        with x show ?thesis by auto
      next
        assume "x = (acc ! i)\<lparr>weight := weight (acc ! i) + weight a\<rparr>"
        then have "endpoints (acc ! i) = endpoints x" "interaction (acc ! i) = interaction x"
          by (simp_all add: endpoints_def)
        moreover have "acc ! i \<in> set acc" using i by simp
        ultimately show ?thesis using x by auto
      qed
    qed
  qed
qed

lemma triples_merged:
  assumes "distinct xs" "\<forall>x \<in> set xs. weight x = 1"
  shows "triples (filter P (mergeDuplicateEdges xs))
     = {(s, t, w). (s, t) \<in> endpoints ` set xs
                 \<and> w = int (card {x \<in> set xs. endpoints x = (s, t)})
                 \<and> (\<exists>e \<in> set (mergeDuplicateEdges xs). endpoints e = (s, t) \<and> P e)}"
proof -
  have s: "endpoints ` set (mergeDuplicateEdges xs) = endpoints ` set xs"
    unfolding mergeDuplicateEdges_def by (simp add: set_endpoints_foldl)
  show ?thesis
  proof (intro set_eqI iffI)
    fix p assume "p \<in> triples (filter P (mergeDuplicateEdges xs))"
    then obtain e where e: "e \<in> set (mergeDuplicateEdges xs)" "P e"
        "p = (source e, target e, weight e)"
      by (auto simp: triples_def)
    from e(1) s have "endpoints e \<in> endpoints ` set xs" by blast
    with e weight_merged [OF assms e(1)]
    show "p \<in> {(s, t, w). (s, t) \<in> endpoints ` set xs
                 \<and> w = int (card {x \<in> set xs. endpoints x = (s, t)})
                 \<and> (\<exists>e \<in> set (mergeDuplicateEdges xs). endpoints e = (s, t) \<and> P e)}"
      by (auto simp: endpoints_def)
  next
    fix p assume "p \<in> {(s, t, w). (s, t) \<in> endpoints ` set xs
                 \<and> w = int (card {x \<in> set xs. endpoints x = (s, t)})
                 \<and> (\<exists>e \<in> set (mergeDuplicateEdges xs). endpoints e = (s, t) \<and> P e)}"
    then obtain s t e where p: "p = (s, t, int (card {x \<in> set xs. endpoints x = (s, t)}))"
        and e: "e \<in> set (mergeDuplicateEdges xs)" "endpoints e = (s, t)" "P e"
      by auto
    from weight_merged [OF assms e(1)] e(2) p have "p = (source e, target e, weight e)"
      by (simp add: endpoints_def)
    with e show "p \<in> triples (filter P (mergeDuplicateEdges xs))"
      by (auto simp: triples_def)
  qed
qed

lemma graph_edges_rendered:
  "graph_edges (formatToLPG original graphName options)
     = filter (rendered options) (mergedEdges original options)"
  by (auto simp: graph_edges_formatToLPG filterSelfEdges_def rendered_def intro: filter_cong)

lemma triples_graph_edges:
  assumes u: "uniqueById (rawRelationships options records)"
    and k: "sameKind (rawRelationships options records)"
  shows "triples (graph_edges (formatToLPG \<lparr>nodes_of = ns, records_of = records\<rparr> graphName options))
     = {(s, t, w).
          (s, t) \<in> endpoints ` toEdgeData ` set (rawRelationships options records)
          \<and> w = int (card {x \<in> toEdgeData ` set (rawRelationships options records).
                             endpoints x = (s, t)})
          \<and> (\<exists>r \<in> set (rawRelationships options records).
                endpoints (toEdgeData r) = (s, t) \<and> toLowerCase (type r) \<noteq> ''contains'')
          \<and> (selfEdges options = Some False \<longrightarrow> s \<noteq> t)}"
proof -
  define rs where "rs = rawRelationships options records"
  define raw where "raw = getAllEdges (abstractedRecords options records)"
  define merged where "merged = mergeDuplicateEdges raw"
  have raw: "set raw = toEdgeData ` set rs"
    unfolding raw_def rs_def rawRelationships_def
    by (rule set_getAllEdges) (use u in \<open>simp add: rawRelationships_def\<close>)
  have d: "distinct raw" unfolding raw_def by (rule distinct_getAllEdges)
  have w1: "\<forall>x \<in> set raw. weight x = 1" unfolding raw_def by (rule unit_getAllEdges)
  have s: "endpoints ` set merged = endpoints ` set raw"
    unfolding merged_def mergeDuplicateEdges_def by (simp add: set_endpoints_foldl)
  have kind: "(\<exists>e \<in> set merged. endpoints e = (s, t) \<and> rendered options e)
      \<longleftrightarrow> (\<exists>r \<in> set rs. endpoints (toEdgeData r) = (s, t) \<and> toLowerCase (type r) \<noteq> ''contains'')
           \<and> (selfEdges options = Some False \<longrightarrow> s \<noteq> t)" for s t
  proof
    assume "\<exists>e \<in> set merged. endpoints e = (s, t) \<and> rendered options e"
    then obtain e where e: "e \<in> set merged" "endpoints e = (s, t)" "rendered options e" by blast
    from merged_origin [of e "[]" raw] e(1)
    obtain x where x: "x \<in> set raw" "endpoints x = endpoints e" "interaction x = interaction e"
      by (auto simp: merged_def mergeDuplicateEdges_def)
    from x(1) raw obtain r where r: "r \<in> set rs" "x = toEdgeData r" by auto
    from e(3) x(3) r(2) have "toLowerCase (type r) \<noteq> ''contains''"
      by (simp add: rendered_def toEdgeData_def)
    moreover from e(2,3) have "selfEdges options = Some False \<longrightarrow> s \<noteq> t"
      by (auto simp: rendered_def endpoints_def)
    ultimately show "(\<exists>r \<in> set rs. endpoints (toEdgeData r) = (s, t) \<and> toLowerCase (type r) \<noteq> ''contains'')
           \<and> (selfEdges options = Some False \<longrightarrow> s \<noteq> t)"
      using r x(2) e(2) by auto
  next
    assume a: "(\<exists>r \<in> set rs. endpoints (toEdgeData r) = (s, t) \<and> toLowerCase (type r) \<noteq> ''contains'')
           \<and> (selfEdges options = Some False \<longrightarrow> s \<noteq> t)"
    then obtain r where r: "r \<in> set rs" "endpoints (toEdgeData r) = (s, t)"
        "toLowerCase (type r) \<noteq> ''contains''"
      by blast
    from r(1,2) raw have "(s, t) \<in> endpoints ` set raw" by force
    with s obtain e where e: "e \<in> set merged" "endpoints e = (s, t)" by force
    from merged_origin [of e "[]" raw] e(1)
    obtain x where x: "x \<in> set raw" "endpoints x = endpoints e" "interaction x = interaction e"
      by (auto simp: merged_def mergeDuplicateEdges_def)
    from x(1) raw obtain r' where r': "r' \<in> set rs" "x = toEdgeData r'" by auto
    have "startNodeElementId r = startNodeElementId r' \<and> endNodeElementId r = endNodeElementId r'"
      using r(2) x(2) e(2) r'(2) by (simp add: endpoints_def toEdgeData_def)
    with k r(1) r'(1) r(3) have "toLowerCase (type r') \<noteq> ''contains''"
      unfolding sameKind_def rs_def [symmetric] by blast
    with x(3) r'(2) have "interaction e \<noteq> ''contains''"
      by (simp add: toEdgeData_def)
    moreover from a e(2) have "selfEdges options = Some False \<longrightarrow> source e \<noteq> target e"
      by (auto simp: endpoints_def)
    ultimately show "\<exists>e \<in> set merged. endpoints e = (s, t) \<and> rendered options e"
      using e by (auto simp: rendered_def)
  qed
  have "triples (graph_edges (formatToLPG \<lparr>nodes_of = ns, records_of = records\<rparr> graphName options))
      = triples (filter (rendered options) merged)"
    by (simp add: graph_edges_rendered mergedEdges_abstracted merged_def raw_def)
  also have "\<dots> = {(s, t, w). (s, t) \<in> endpoints ` set raw
                 \<and> w = int (card {x \<in> set raw. endpoints x = (s, t)})
                 \<and> (\<exists>e \<in> set merged. endpoints e = (s, t) \<and> rendered options e)}"
    unfolding merged_def by (rule triples_merged [OF d w1])
  finally show ?thesis
    unfolding kind raw rs_def .
qed

lemma ids_graph_nodes_raw:
  "id_node ` set (graph_nodes (formatToLPG \<lparr>nodes_of = ns, records_of = records\<rparr> graphName options))
     = {i \<in> id_node ` set ns.
          \<exists>p \<in> endpoints ` set (getAllEdges (abstractedRecords options records)).
            i = fst p \<or> i = snd p}"
proof -
  have s: "endpoints ` set (mergeDuplicateEdges (getAllEdges (abstractedRecords options records)))
      = endpoints ` set (getAllEdges (abstractedRecords options records))"
    unfolding mergeDuplicateEdges_def by (simp add: set_endpoints_foldl)
  have "(\<exists>e \<in> set (mergeDuplicateEdges (getAllEdges (abstractedRecords options records))).
            i = source e \<or> i = target e)
      \<longleftrightarrow> (\<exists>p \<in> endpoints ` set (mergeDuplicateEdges (getAllEdges (abstractedRecords options records))).
            i = fst p \<or> i = snd p)" for i
    by (auto simp: endpoints_def)
  then show ?thesis
    unfolding ids_graph_nodes mergedEdges_abstracted s by simp
qed

text \<open>
  The comparison of two orders, from the relationships after the abstraction: when those with
  one element id are equal.
\<close>

lemma order_independent_raw:
  assumes "mset records' = mset records"
    and "id_node ` set ns' = id_node ` set ns"
    and "uniqueById (rawRelationships options records)"
    and "sameKind (rawRelationships options records)"
    and "consistentMap options records"
  shows "triples (graph_edges (formatToLPG \<lparr>nodes_of = ns', records_of = records'\<rparr> graphName options))
           = triples (graph_edges (formatToLPG \<lparr>nodes_of = ns, records_of = records\<rparr> graphName options))
         \<and> id_node ` set (graph_nodes (formatToLPG \<lparr>nodes_of = ns', records_of = records'\<rparr> graphName options))
           = id_node ` set (graph_nodes (formatToLPG \<lparr>nodes_of = ns, records_of = records\<rparr> graphName options))"
proof -
  have s: "set records' = set records"
    using assms(1) by (rule mset_eq_setD)
  have a: "set (abstractedRecords options records') = set (abstractedRecords options records)"
    using s assms(5) by (rule set_abstractedRecords)
  then have r: "set (rawRelationships options records') = set (rawRelationships options records)"
    by (simp add: rawRelationships_def)
  have u': "uniqueById (rawRelationships options records')"
    using assms(3) unfolding uniqueById_def r .
  have k': "sameKind (rawRelationships options records')"
    using assms(4) unfolding sameKind_def r .
  have g: "set (getAllEdges (abstractedRecords options rs))
      = toEdgeData ` set (rawRelationships options rs)"
    if "uniqueById (rawRelationships options rs)" for rs
    using that unfolding rawRelationships_def by (rule set_getAllEdges)
  have e: "set (getAllEdges (abstractedRecords options records'))
      = set (getAllEdges (abstractedRecords options records))"
    by (simp only: g [OF u'] g [OF assms(3)] r)
  have "triples (graph_edges (formatToLPG \<lparr>nodes_of = ns', records_of = records'\<rparr> graphName options))
      = triples (graph_edges (formatToLPG \<lparr>nodes_of = ns, records_of = records\<rparr> graphName options))"
    unfolding triples_graph_edges [OF u' k'] triples_graph_edges [OF assms(3) assms(4)] r ..
  moreover have "id_node ` set (graph_nodes (formatToLPG \<lparr>nodes_of = ns', records_of = records'\<rparr> graphName options))
      = id_node ` set (graph_nodes (formatToLPG \<lparr>nodes_of = ns, records_of = records\<rparr> graphName options))"
    unfolding ids_graph_nodes_raw e assms(2) ..
  ultimately show ?thesis ..
qed

lemma set_splice_rest: "set (snd (splice xs s c)) \<subseteq> set xs"
proof -
  have "set (take a xs @ drop b xs) \<subseteq> set xs" for a b
    using set_take_subset [of a xs] set_drop_subset [of b xs] by auto
  then show ?thesis by (simp add: splice_def Let_def)
qed

lemma cut_chunks:
  "set (containSourceEdges (snd (abstractRecord d r m))) \<subseteq> set (containSourceEdges r)"
  "set (containTargetEdges (snd (abstractRecord d r m))) \<subseteq> set (containTargetEdges r)"
  "dependencyEdges (snd (abstractRecord d r m)) = dependencyEdges r"
  using set_splice_rest [of "containSourceEdges r"] set_splice_rest [of "containTargetEdges r"]
  by (simp_all add: abstractRecord_def Let_def split_beta)

lemma abstractedRecords_shape:
  assumes "maxDepth options = Some d"
  shows "abstractedRecords options rs
      = map (\<lambda>r. (snd (abstractRecord d r []))
                   \<lparr>dependencyEdges :=
                      map (abstractEdge (fst (getAbstractionMap rs d)))
                        (dependencyEdges (snd (abstractRecord d r [])))\<rparr>) rs"
  by (simp add: abstractedRecords_def assms getAbstractionMap_def split_beta applyAbstraction_def
      snd_abstractRecords comp_def)

lemma rawRelationships_origin:
  assumes "x \<in> set (rawRelationships options records)"
  shows "(\<exists>r \<in> set records. x \<in> set (containSourceEdges r) \<union> set (containTargetEdges r))
         \<or> (\<exists>r \<in> set records. \<exists>y \<in> set (dependencyEdges r).
               elementId x = elementId y \<and> type x = type y
               \<and> x = (case maxDepth options of
                         None \<Rightarrow> y
                       | Some d \<Rightarrow> abstractEdge (fst (getAbstractionMap records d)) y))"
proof (cases "maxDepth options")
  case None
  with assms show ?thesis
    by (auto simp: rawRelationships_def abstractedRecords_def allEdges_def)
next
  case (Some d)
  define M where "M = fst (getAbstractionMap records d)"
  from assms obtain r where r: "r \<in> set records"
    and x: "x \<in> set (allEdges ((snd (abstractRecord d r []))
                   \<lparr>dependencyEdges :=
                      map (abstractEdge M) (dependencyEdges (snd (abstractRecord d r [])))\<rparr>))"
    unfolding rawRelationships_def abstractedRecords_shape [OF Some] M_def by auto
  from x have "x \<in> set (containSourceEdges (snd (abstractRecord d r [])))
      \<or> x \<in> set (containTargetEdges (snd (abstractRecord d r [])))
      \<or> x \<in> abstractEdge M ` set (dependencyEdges r)"
    by (auto simp: allEdges_def cut_chunks(3))
  then show ?thesis
  proof (elim disjE)
    assume "x \<in> set (containSourceEdges (snd (abstractRecord d r [])))"
    with cut_chunks(1) [of d r "[]"] r show ?thesis by blast
  next
    assume "x \<in> set (containTargetEdges (snd (abstractRecord d r [])))"
    with cut_chunks(2) [of d r "[]"] r show ?thesis by blast
  next
    assume "x \<in> abstractEdge M ` set (dependencyEdges r)"
    then obtain y where y: "y \<in> set (dependencyEdges r)" "x = abstractEdge M y" by blast
    then have "elementId x = elementId y" "type x = type y"
      by (simp_all add: abstractEdge_def)
    with y r Some show ?thesis
      unfolding M_def by auto
  qed
qed

lemma preprocessed_unique:
  assumes "preprocessed records"
  shows "uniqueById (rawRelationships options records)"
  unfolding uniqueById_def
proof (intro ballI impI)
  fix x1 x2
  assume x1: "x1 \<in> set (rawRelationships options records)"
    and x2: "x2 \<in> set (rawRelationships options records)"
    and same: "elementId x1 = elementId x2"
  have u: "a = b" if "a \<in> set (concat (map allEdges records))"
      "b \<in> set (concat (map allEdges records))" "elementId a = elementId b" for a b
    using assms that unfolding preprocessed_def uniqueById_def by blast
  have inC: "a \<in> set (concat (map allEdges records)) \<and> toLowerCase (type a) = ''contains''"
    if "r \<in> set records" "a \<in> set (containSourceEdges r) \<union> set (containTargetEdges r)" for a r
    using assms that unfolding preprocessed_def typedChunks_def
    by (auto simp: list_all_iff allEdges_def)
  have inD: "a \<in> set (concat (map allEdges records)) \<and> toLowerCase (type a) \<noteq> ''contains''"
    if "r \<in> set records" "a \<in> set (dependencyEdges r)" for a r
    using assms that unfolding preprocessed_def typedChunks_def
    by (auto simp: list_all_iff allEdges_def)
  define f where "f = (\<lambda>y. case maxDepth options of
                         None \<Rightarrow> y
                       | Some d \<Rightarrow> abstractEdge (fst (getAbstractionMap records d)) y)"
  from rawRelationships_origin [OF x1]
  consider (c1) r where "r \<in> set records"
      "x1 \<in> set (containSourceEdges r) \<union> set (containTargetEdges r)"
    | (d1) r y where "r \<in> set records" "y \<in> set (dependencyEdges r)"
      "elementId x1 = elementId y" "type x1 = type y" "x1 = f y"
    unfolding f_def by blast
  then show "x1 = x2"
  proof cases
    case c1
    from rawRelationships_origin [OF x2]
    consider (c2) r' where "r' \<in> set records"
        "x2 \<in> set (containSourceEdges r') \<union> set (containTargetEdges r')"
      | (d2) r' y' where "r' \<in> set records" "y' \<in> set (dependencyEdges r')"
        "elementId x2 = elementId y'" "type x2 = type y'" "x2 = f y'"
      unfolding f_def by blast
    then show ?thesis
    proof cases
      case c2
      from inC [OF c1] inC [OF c2] same show ?thesis by (intro u) simp_all
    next
      case d2
      from inC [OF c1] inD [OF d2(1,2)] same d2(3) have "x1 = y'" by (intro u) simp_all
      with inC [OF c1] inD [OF d2(1,2)] show ?thesis by simp
    qed
  next
    case d1
    from rawRelationships_origin [OF x2]
    consider (c2) r' where "r' \<in> set records"
        "x2 \<in> set (containSourceEdges r') \<union> set (containTargetEdges r')"
      | (d2) r' y' where "r' \<in> set records" "y' \<in> set (dependencyEdges r')"
        "elementId x2 = elementId y'" "type x2 = type y'" "x2 = f y'"
      unfolding f_def by blast
    then show ?thesis
    proof cases
      case c2
      from inD [OF d1(1,2)] inC [OF c2] same d1(3) have "y = x2" by (intro u) simp_all
      with inD [OF d1(1,2)] inC [OF c2] show ?thesis by simp
    next
      case d2
      from inD [OF d1(1,2)] inD [OF d2(1,2)] same d1(3) d2(3) have "y = y'" by (intro u) simp_all
      with d1(5) d2(5) show ?thesis by simp
    qed
  qed
qed

text \<open>
  C9 (amended). For two lists of pre-processed records that are permutations of each other,
  with the same options and node ids: if, after the abstraction, relationships with the same
  endpoints are all containment edges or all other edges, and (with a cutoff) an end node
  deleted in two runs has the same replacement in both, then \<open>formatToLPG\<close> returns the same set
  of node ids and the same set of edges compared by source, target and weight. The id of an
  edge is left out of the comparison: it is the id of the first raw edge seen.
\<close>

theorem formatToLPG_order_independent:
  assumes "mset records' = mset records"
    and "id_node ` set ns' = id_node ` set ns"
    and "preprocessed records"
    and "sameKind (rawRelationships options records)"
    and "consistentMap options records"
  shows "triples (graph_edges (formatToLPG \<lparr>nodes_of = ns', records_of = records'\<rparr> graphName options))
           = triples (graph_edges (formatToLPG \<lparr>nodes_of = ns, records_of = records\<rparr> graphName options))
         \<and> id_node ` set (graph_nodes (formatToLPG \<lparr>nodes_of = ns', records_of = records'\<rparr> graphName options))
           = id_node ` set (graph_nodes (formatToLPG \<lparr>nodes_of = ns, records_of = records\<rparr> graphName options))"
proof -
  have "uniqueById (rawRelationships options records)"
    using assms(3) by (rule preprocessed_unique)
  with assms(1,2) show ?thesis
    using assms(4,5) by (rule order_independent_raw)
qed

theorem formatToLPG_order_independent_witness:
  "mset (rev twoBranches) = mset twoBranches
   \<and> preprocessed twoBranches
   \<and> sameKind (rawRelationships cutoffOne twoBranches)
   \<and> consistentMap cutoffOne twoBranches
   \<and> triples (graph_edges (formatToLPG \<lparr>nodes_of = [plainNode ''S''], records_of = twoBranches\<rparr>
                                ''G'' cutoffOne)) = {(''A'', ''L'', 2)}
   \<and> triples (graph_edges (formatToLPG \<lparr>nodes_of = [plainNode ''S''], records_of = rev twoBranches\<rparr>
                                ''G'' cutoffOne)) = {(''A'', ''L'', 2)}
   \<and> id_node ` set (graph_nodes (formatToLPG \<lparr>nodes_of = [plainNode ''S''], records_of = rev twoBranches\<rparr>
                                       ''G'' cutoffOne))
       = id_node ` set (graph_nodes (formatToLPG \<lparr>nodes_of = [plainNode ''S''], records_of = twoBranches\<rparr>
                                       ''G'' cutoffOne))"
proof -
  have m: "mset (rev twoBranches) = mset twoBranches"
    by simp
  have n: "id_node ` set [plainNode ''S''] = id_node ` set [plainNode ''S'']"
    by simp
  have p: "preprocessed twoBranches"
    by code_simp
  have k: "sameKind (rawRelationships cutoffOne twoBranches)"
    by code_simp
  have c: "consistentMap cutoffOne twoBranches"
    by code_simp
  have e: "graph_edges (formatToLPG \<lparr>nodes_of = [plainNode ''S''], records_of = twoBranches\<rparr>
                          ''G'' cutoffOne)
      = [\<lparr>id_edge = ''d1'', source = ''A'', target = ''L'', interaction = ''calls'', weight = 2\<rparr>]"
    by code_simp
  then have t: "triples (graph_edges (formatToLPG \<lparr>nodes_of = [plainNode ''S''], records_of = twoBranches\<rparr>
                                ''G'' cutoffOne)) = {(''A'', ''L'', 2)}"
    by (simp add: triples_def)
  from formatToLPG_order_independent [OF m n p k c, of "''G''"] t
  have "triples (graph_edges (formatToLPG \<lparr>nodes_of = [plainNode ''S''], records_of = rev twoBranches\<rparr>
                                ''G'' cutoffOne)) = {(''A'', ''L'', 2)}"
    and "id_node ` set (graph_nodes (formatToLPG \<lparr>nodes_of = [plainNode ''S''], records_of = rev twoBranches\<rparr>
                                       ''G'' cutoffOne))
       = id_node ` set (graph_nodes (formatToLPG \<lparr>nodes_of = [plainNode ''S''], records_of = twoBranches\<rparr>
                                       ''G'' cutoffOne))"
    by simp_all
  with m p k c t show ?thesis by (intro conjI)
qed

text \<open>
  C9 (as stated, refuted). Three pairs of record lists, each a list of pre-processed records and
  the same records in the other order. Scenario B: the one returned edge has the id \<open>d1\<close> in one
  order and \<open>d2\<close> in the other. Two records of one selected node with cutoff 1, where the end
  node \<open>M2\<close> is deleted in two runs with different replacements: the returned edge runs from \<open>A\<close>
  to \<open>L\<close> in one order and from \<open>A\<close> to \<open>D\<close> in the other. A dependency edge and a containment edge
  on one pair of nodes: the merged edge is returned in one order and is a containment edge, and
  so left out, in the other.
\<close>

theorem formatToLPG_order_counterexample:
  "mset (records_of scenarioBswapped) = mset (records_of scenarioB)
   \<and> preprocessed (records_of scenarioB)
   \<and> graph_edges (formatToLPG scenarioB ''B'' noOptions)
       = [\<lparr>id_edge = ''d1'', source = ''A'', target = ''B'', interaction = ''calls'', weight = 2\<rparr>]
   \<and> graph_edges (formatToLPG scenarioBswapped ''B'' noOptions)
       = [\<lparr>id_edge = ''d2'', source = ''A'', target = ''B'', interaction = ''calls'', weight = 2\<rparr>]
   \<and> preprocessed twoDepths
   \<and> \<not> consistentMap cutoffOne twoDepths
   \<and> graph_edges (formatToLPG \<lparr>nodes_of = [plainNode ''S''], records_of = twoDepths\<rparr> ''G'' cutoffOne)
       = [\<lparr>id_edge = ''d1'', source = ''A'', target = ''L'', interaction = ''calls'', weight = 2\<rparr>]
   \<and> graph_edges (formatToLPG \<lparr>nodes_of = [plainNode ''S''], records_of = rev twoDepths\<rparr> ''G'' cutoffOne)
       = [\<lparr>id_edge = ''d2'', source = ''A'', target = ''D'', interaction = ''calls'', weight = 2\<rparr>]
   \<and> mset (records_of mixedKindSwapped) = mset (records_of mixedKind)
   \<and> preprocessed (records_of mixedKind)
   \<and> \<not> sameKind (rawRelationships noOptions (records_of mixedKind))
   \<and> graph_edges (formatToLPG mixedKind ''G'' noOptions)
       = [\<lparr>id_edge = ''d1'', source = ''A'', target = ''B'', interaction = ''calls'', weight = 2\<rparr>]
   \<and> graph_edges (formatToLPG mixedKindSwapped ''G'' noOptions) = []"
proof -
  have "mset (records_of scenarioBswapped) = mset (records_of scenarioB)"
    by (simp add: scenarioB_def scenarioBswapped_def add_mset_commute)
  moreover have "preprocessed (records_of scenarioB)"
    by code_simp
  moreover have "graph_edges (formatToLPG scenarioB ''B'' noOptions)
       = [\<lparr>id_edge = ''d1'', source = ''A'', target = ''B'', interaction = ''calls'', weight = 2\<rparr>]"
    by code_simp
  moreover have "graph_edges (formatToLPG scenarioBswapped ''B'' noOptions)
       = [\<lparr>id_edge = ''d2'', source = ''A'', target = ''B'', interaction = ''calls'', weight = 2\<rparr>]"
    by code_simp
  moreover have "preprocessed twoDepths"
    by code_simp
  moreover have "\<not> consistentMap cutoffOne twoDepths"
    by code_simp
  moreover have "graph_edges (formatToLPG \<lparr>nodes_of = [plainNode ''S''], records_of = twoDepths\<rparr> ''G'' cutoffOne)
       = [\<lparr>id_edge = ''d1'', source = ''A'', target = ''L'', interaction = ''calls'', weight = 2\<rparr>]"
    by code_simp
  moreover have "graph_edges (formatToLPG \<lparr>nodes_of = [plainNode ''S''], records_of = rev twoDepths\<rparr> ''G'' cutoffOne)
       = [\<lparr>id_edge = ''d2'', source = ''A'', target = ''D'', interaction = ''calls'', weight = 2\<rparr>]"
    by code_simp
  moreover have "mset (records_of mixedKindSwapped) = mset (records_of mixedKind)"
    by (simp add: mixedKind_def mixedKindSwapped_def add_mset_commute)
  moreover have "preprocessed (records_of mixedKind)"
    by code_simp
  moreover have "\<not> sameKind (rawRelationships noOptions (records_of mixedKind))"
    by code_simp
  moreover have "graph_edges (formatToLPG mixedKind ''G'' noOptions)
       = [\<lparr>id_edge = ''d1'', source = ''A'', target = ''B'', interaction = ''calls'', weight = 2\<rparr>]"
    by code_simp
  moreover have "graph_edges (formatToLPG mixedKindSwapped ''G'' noOptions) = []"
    by code_simp
  ultimately show ?thesis by (intro conjI)
qed

end
